theory Spec2Isabelle
  imports Complex_Main
begin

section \<open>Python values held by a Report\<close>

text \<open>
  The values of \<^verbatim>\<open>mmf/common/report.py\<close> are untyped Python objects. The model keeps
  the shapes the source tests with \<^verbatim>\<open>isinstance\<close> or subscripts:
  \<^item> \<open>VTensor dtype device shape data\<close>: a \<^verbatim>\<open>torch.Tensor\<close> of one of the two default
    dtypes (\<open>Float32\<close> as \<^verbatim>\<open>torch.tensor(1.0)\<close>, \<open>Int64\<close> as \<^verbatim>\<open>torch.tensor(1)\<close>), the
    name of the device it lives on, its sizes and its entries in row-major order. The
    entries are rationals; the rounding of float32 is the parameter \<open>rnd\<close> of the
    functions that compute with tensors, of which nothing is assumed, and 64-bit
    integers wrap around. Infinities and NaN are not values of the model;
  \<^item> \<open>VList\<close>: a \<^verbatim>\<open>list\<close>, the only \<^verbatim>\<open>MutableSequence\<close> of the model; \<open>VTuple\<close>: a tuple;
  \<^item> \<open>VDict items gbs\<close>: a \<^verbatim>\<open>dict\<close> or a subclass of it (OrderedDict, SampleList,
    Report), which is also a \<^verbatim>\<open>collections.abc.Mapping\<close>, with its items in iteration
    order; keys are strings. \<open>gbs\<close> is what the object's \<^verbatim>\<open>get_batch_size()\<close> returns, and
    \<open>None\<close> when that call raises AttributeError (a plain dict has no such method).
  Values are immutable trees: an in-place update of a container is the updated container
  stored where the old one was, and two fields never share a container.
\<close>

datatype dtype = Float32 | Int64

type_synonym device = string

datatype pyval =
    VNone
  | VInt int
  | VFloat rat
  | VStr string
  | VTensor dtype device "nat list" "rat list"
  | VList "pyval list"
  | VTuple "pyval list"
  | VDict "(string \<times> pyval) list" "pyval option"

text \<open>
  Every \<^verbatim>\<open>raise\<close> the model can reach. \<open>NotAMapping idx arg\<close> is the TypeError of
  \<^verbatim>\<open>__init__\<close>, which names the position and the argument. \<open>Unmodelled\<close> marks an input
  that Python accepts and the value type above cannot describe (a key that is not a
  string, a format field other than \<^verbatim>\<open>{}\<close>, broadcasting of unequal shapes).
\<close>

datatype error =
    TypeError
  | NotAMapping nat pyval
  | IndexError
  | KeyError pyval
  | AttributeError string
  | ValueError
  | RuntimeError
  | Unmodelled

fun is_mapping :: "pyval \<Rightarrow> bool" where
  "is_mapping (VDict kvs g) = True"
| "is_mapping v = False"

fun is_tuple_or_list :: "pyval \<Rightarrow> bool" where
  "is_tuple_or_list (VList xs) = True"
| "is_tuple_or_list (VTuple xs) = True"
| "is_tuple_or_list v = False"

fun is_str :: "pyval \<Rightarrow> bool" where
  "is_str (VStr s) = True"
| "is_str v = False"

text \<open>\<^verbatim>\<open>x[i]\<close> for a literal index \<open>i\<close> (0 or 1 in the source).\<close>

fun py_index :: "pyval \<Rightarrow> nat \<Rightarrow> error + pyval" where
  "py_index (VList xs) i = (if i < length xs then Inr (xs ! i) else Inl IndexError)"
| "py_index (VTuple xs) i = (if i < length xs then Inr (xs ! i) else Inl IndexError)"
| "py_index (VStr s) i = (if i < length s then Inr (VStr [s ! i]) else Inl IndexError)"
| "py_index (VTensor dt dev sh d) i =
     (case sh of
        [] \<Rightarrow> Inl IndexError
      | n # sh' \<Rightarrow>
          if i < n
          then Inr (VTensor dt dev sh' (take (prod_list sh') (drop (i * prod_list sh') d)))
          else Inl IndexError)"
| "py_index (VDict kvs g) i = Inl (KeyError (VInt (int i)))"
| "py_index v i = Inl TypeError"

text \<open>What \<^verbatim>\<open>for x in seq\<close> yields for a list or a tuple.\<close>

fun iter_seq :: "pyval \<Rightarrow> pyval list" where
  "iter_seq (VList xs) = xs"
| "iter_seq (VTuple xs) = xs"
| "iter_seq v = []"

text \<open>\<^verbatim>\<open>key in fields\<close> for a list or a tuple: some element equals the key.\<close>

fun py_in :: "pyval \<Rightarrow> pyval \<Rightarrow> bool" where
  "py_in x (VList xs) = (x \<in> set xs)"
| "py_in x (VTuple xs) = (x \<in> set xs)"
| "py_in x v = False"

text \<open>
  \<^verbatim>\<open>template.format(*args)\<close> with string arguments: \<^verbatim>\<open>{}\<close> takes the next argument,
  \<^verbatim>\<open>{{\<close> and \<^verbatim>\<open>}}\<close> are literal braces, a lone \<^verbatim>\<open>}\<close> is a ValueError, and too few
  arguments are an IndexError. Any other replacement field is outside the model.
\<close>

fun py_format :: "string \<Rightarrow> string list \<Rightarrow> error + string" where
  "py_format [] args = Inr []"
| "py_format (c # cs) args =
     (if c = CHR ''{'' then
        (case cs of
           [] \<Rightarrow> Inl ValueError
         | c' # cs' \<Rightarrow>
             if c' = CHR ''}'' then
               (case args of
                  [] \<Rightarrow> Inl IndexError
                | a # as \<Rightarrow>
                    (case py_format cs' as of Inl e \<Rightarrow> Inl e | Inr s \<Rightarrow> Inr (a @ s)))
             else if c' = CHR ''{'' then
               (case py_format cs' args of Inl e \<Rightarrow> Inl e | Inr s \<Rightarrow> Inr (CHR ''{'' # s))
             else Inl Unmodelled)
      else if c = CHR ''}'' then
        (case cs of
           [] \<Rightarrow> Inl ValueError
         | c' # cs' \<Rightarrow>
             if c' = CHR ''}'' then
               (case py_format cs' args of Inl e \<Rightarrow> Inl e | Inr s \<Rightarrow> Inr (CHR ''}'' # s))
             else Inl ValueError)
      else (case py_format cs args of Inl e \<Rightarrow> Inl e | Inr s \<Rightarrow> Inr (c # s)))"

section \<open>The ordered store\<close>

text \<open>
  \<^verbatim>\<open>class Report(OrderedDict)\<close>: a Report is its items in insertion order. The class
  overrides \<^verbatim>\<open>__setattr__\<close>, so no attribute is ever stored outside the items.
\<close>

type_synonym report = "(string \<times> pyval) list"

text \<open>Warnings issued with \<^verbatim>\<open>warnings.warn\<close>, oldest first.\<close>

type_synonym warnings = "string list"

definition fields :: "report \<Rightarrow> string list" where
  "fields r = map fst r"

definition contains :: "report \<Rightarrow> string \<Rightarrow> bool" where
  "contains r key = (key \<in> set (map fst r))"

text \<open>\<^verbatim>\<open>self[key] = value\<close>: an existing key keeps its place, a new key goes last.\<close>

fun setitem :: "report \<Rightarrow> string \<Rightarrow> pyval \<Rightarrow> report" where
  "setitem [] key v = [(key, v)]"
| "setitem ((k, w) # r) key v =
     (if k = key then (k, v) # r else (k, w) # setitem r key v)"

definition getitem :: "report \<Rightarrow> string \<Rightarrow> error + pyval" where
  "getitem r key =
     (case map_of r key of None \<Rightarrow> Inl (KeyError (VStr key)) | Some v \<Rightarrow> Inr v)"

text \<open>\<^verbatim>\<open>__setattr__\<close> and \<^verbatim>\<open>__getattr__\<close> as the class defines them.\<close>

definition dunder_setattr :: "report \<Rightarrow> string \<Rightarrow> pyval \<Rightarrow> report" where
  "dunder_setattr r key v = setitem r key v"

definition dunder_getattr :: "report \<Rightarrow> string \<Rightarrow> error + pyval" where
  "dunder_getattr r key =
     (case getitem r key of Inl e \<Rightarrow> Inl (AttributeError key) | Inr v \<Rightarrow> Inr v)"

text \<open>
  The \<^verbatim>\<open>batch_size\<close> property. Its setter is never reached (\<^verbatim>\<open>__setattr__\<close> is
  overridden and stores the item \<^verbatim>\<open>batch_size\<close>). Its getter reads \<^verbatim>\<open>self._batch_size\<close>,
  which is no class attribute and so goes to \<^verbatim>\<open>__getattr__\<close>; when the getter raises
  AttributeError, Python calls \<^verbatim>\<open>__getattr__('batch_size')\<close>.
\<close>

definition batch_size_property :: "report \<Rightarrow> error + pyval" where
  "batch_size_property r =
     (case dunder_getattr r ''_batch_size'' of
        Inr v \<Rightarrow> Inr v
      | Inl e \<Rightarrow> dunder_getattr r ''batch_size'')"

definition get_batch_size :: "report \<Rightarrow> error + pyval" where
  "get_batch_size r = batch_size_property r"

text \<open>
  The names the class body of Report binds, besides the property. Reading \<^verbatim>\<open>report.name\<close>
  finds the property first, then these and the names inherited from OrderedDict (the
  parameter \<open>inherited\<close>; the standard library is not part of the sources), and calls
  \<^verbatim>\<open>__getattr__\<close> only when none of them matches.
\<close>

definition report_methods :: "string list" where
  "report_methods =
     [''__init__'', ''get_batch_size'', ''_check_and_load_tuple'', ''__setattr__'',
      ''__getattr__'', ''fields'', ''apply_fn'', ''detach'', ''to'',
      ''accumulate_tensor_fields_and_loss'', ''_accumulate_loss'', ''copy'']"

datatype attr = Field pyval | BoundMethod string

definition attr_read :: "string list \<Rightarrow> report \<Rightarrow> string \<Rightarrow> error + attr" where
  "attr_read inherited r name =
     (if name = ''batch_size'' then
        (case batch_size_property r of Inl e \<Rightarrow> Inl e | Inr v \<Rightarrow> Inr (Field v))
      else if name \<in> set report_methods \<or> name \<in> set inherited then Inr (BoundMethod name)
      else (case dunder_getattr r name of Inl e \<Rightarrow> Inl e | Inr v \<Rightarrow> Inr (Field v)))"

text \<open>\<^verbatim>\<open>report.name = v\<close> always reaches \<^verbatim>\<open>__setattr__\<close>.\<close>

definition attr_write :: "report \<Rightarrow> string \<Rightarrow> pyval \<Rightarrow> report" where
  "attr_write r name v = dunder_setattr r name v"

section \<open>Construction\<close>

text \<open>
  The loop of \<^verbatim>\<open>_check_and_load_tuple\<close>: \<^verbatim>\<open>self[kv_pair[0]] = kv_pair[1]\<close>, right-hand
  side first. A list or a dict as key is unhashable.
\<close>

fun load_pairs :: "report \<Rightarrow> pyval list \<Rightarrow> error + report" where
  "load_pairs r [] = Inr r"
| "load_pairs r (kv_pair # rest) =
     (case py_index kv_pair 1 of
        Inl e \<Rightarrow> Inl e
      | Inr v \<Rightarrow>
          (case py_index kv_pair 0 of
             Inl e \<Rightarrow> Inl e
           | Inr (VStr key) \<Rightarrow> load_pairs (setitem r key v) rest
           | Inr (VList xs) \<Rightarrow> Inl TypeError
           | Inr (VDict kvs g) \<Rightarrow> Inl TypeError
           | Inr k \<Rightarrow> Inl Unmodelled))"

definition check_and_load_tuple :: "report \<Rightarrow> pyval \<Rightarrow> error + bool \<times> report" where
  "check_and_load_tuple r batch =
     (if is_mapping batch then Inr (False, r)
      else
        (case py_index batch 0 of
           Inl e \<Rightarrow> Inl e
         | Inr b0 \<Rightarrow>
             if is_tuple_or_list b0 then
               (case py_index b0 0 of
                  Inl e \<Rightarrow> Inl e
                | Inr b00 \<Rightarrow>
                    if is_str b00 then
                      (case load_pairs r (iter_seq batch) of
                         Inl e \<Rightarrow> Inl e
                       | Inr r' \<Rightarrow> Inr (True, r'))
                    else Inr (False, r))
             else Inr (False, r)))"

definition warning_string :: string where
  "warning_string =
     ''Updating forward report with key {}'' @
     ''{}, but it already exists in {}. '' @
     ''Please consider using a different key, '' @
     ''as this can cause issues during loss and '' @
     ''metric calculations.''"

text \<open>The first loop over \<^verbatim>\<open>all_args\<close>: the first argument that is no Mapping.\<close>

fun check_mappings :: "nat \<Rightarrow> pyval list \<Rightarrow> error option" where
  "check_mappings idx [] = None"
| "check_mappings idx (arg # args) =
     (if is_mapping arg then check_mappings (Suc idx) args else Some (NotAMapping idx arg))"

fun items_of :: "pyval \<Rightarrow> (string \<times> pyval) list" where
  "items_of (VDict kvs g) = kvs"
| "items_of v = []"

text \<open>\<^verbatim>\<open>batch.get_batch_size()\<close> on the batch argument.\<close>

fun call_get_batch_size :: "pyval \<Rightarrow> error + pyval" where
  "call_get_batch_size (VDict kvs (Some bs)) = Inr bs"
| "call_get_batch_size v = Inl (AttributeError ''get_batch_size'')"

text \<open>
  \<^verbatim>\<open>self.warning_string.format(key, "", "in previous arguments to report")\<close>: the
  template is read back from the items, where \<^verbatim>\<open>__setattr__\<close> put it.
\<close>

definition format_warning :: "report \<Rightarrow> string \<Rightarrow> error + string" where
  "format_warning r key =
     (case dunder_getattr r ''warning_string'' of
        Inl e \<Rightarrow> Inl e
      | Inr (VStr template) \<Rightarrow>
          py_format template [key, '''', ''in previous arguments to report'']
      | Inr v \<Rightarrow> Inl (AttributeError ''format''))"

text \<open>The inner loop \<^verbatim>\<open>for key, item in arg.items()\<close> at position \<open>idx\<close>.\<close>

fun merge_items ::
  "nat \<Rightarrow> report \<times> warnings \<Rightarrow> (string \<times> pyval) list \<Rightarrow> error + report \<times> warnings" where
  "merge_items idx (r, w) [] = Inr (r, w)"
| "merge_items idx (r, w) ((key, item) # rest) =
     (if contains r key \<and> idx \<ge> 2 then
        (case format_warning r key of
           Inl e \<Rightarrow> Inl e
         | Inr logmsg \<Rightarrow> merge_items idx (setitem r key item, w @ [logmsg]) rest)
      else merge_items idx (setitem r key item, w) rest)"

text \<open>The outer loop \<^verbatim>\<open>for idx, arg in enumerate(all_args)\<close>.\<close>

fun merge_args ::
  "nat \<Rightarrow> report \<times> warnings \<Rightarrow> pyval list \<Rightarrow> error + report \<times> warnings" where
  "merge_args idx s [] = Inr s"
| "merge_args idx s (arg # args) =
     (case merge_items idx s (items_of arg) of
        Inl e \<Rightarrow> Inl e
      | Inr s' \<Rightarrow> merge_args (Suc idx) s' args)"

text \<open>
  \<^verbatim>\<open>Report(batch, model_output, *args)\<close>: the new Report and the warnings issued, or the
  exception. An omitted argument is \<open>VNone\<close>.
\<close>

definition dunder_init :: "pyval \<Rightarrow> pyval \<Rightarrow> pyval list \<Rightarrow> error + report \<times> warnings" where
  "dunder_init batch model_output args =
     (if batch = VNone then Inr ([], [])
      else
        let model_output = (if model_output = VNone then VDict [] None else model_output) in
        (case check_and_load_tuple [] batch of
           Inl e \<Rightarrow> Inl e
         | Inr (True, r) \<Rightarrow> Inr (r, [])
         | Inr (False, r) \<Rightarrow>
             let all_args = [batch, model_output] @ args in
             (case check_mappings 0 all_args of
                Some e \<Rightarrow> Inl e
              | None \<Rightarrow>
                  (case call_get_batch_size batch of
                     Inl e \<Rightarrow> Inl e
                   | Inr bs \<Rightarrow>
                       let r1 = dunder_setattr r ''batch_size'' bs;
                           r2 = dunder_setattr r1 ''warning_string'' (VStr warning_string)
                       in merge_args 0 (r2, []) all_args))))"

section \<open>Transform application\<close>

text \<open>
  \<^verbatim>\<open>for idx, item in enumerate(xs): xs[idx] = fn(item)\<close>, from position \<open>idx\<close> on. The
  transform \<open>fn\<close> is a function of the value alone.
\<close>

function apply_seq :: "(pyval \<Rightarrow> pyval) \<Rightarrow> nat \<Rightarrow> pyval list \<Rightarrow> pyval list" where
  "apply_seq fn idx xs =
     (if idx < length xs then apply_seq fn (Suc idx) (xs[idx := fn (xs ! idx)]) else xs)"
  by pat_completeness auto
termination
  by (relation "measure (\<lambda>(fn, idx, xs). length xs - idx)") auto

declare apply_seq.simps [simp del]

text \<open>
  \<^verbatim>\<open>for subkey in d.keys(): d[subkey] = fn(d[subkey])\<close>. Every subkey is a key of
  \<open>d\<close>, so the lookup cannot fail.
\<close>

fun apply_subkeys ::
  "(pyval \<Rightarrow> pyval) \<Rightarrow> (string \<times> pyval) list \<Rightarrow> string list \<Rightarrow> (string \<times> pyval) list" where
  "apply_subkeys fn d [] = d"
| "apply_subkeys fn d (subkey # subkeys) =
     (case map_of d subkey of
        None \<Rightarrow> apply_subkeys fn d subkeys
      | Some v \<Rightarrow> apply_subkeys fn (setitem d subkey (fn v)) subkeys)"

text \<open>
  The second half of the loop body: one more level, on the value now stored. The test
  for a list is \<^verbatim>\<open>isinstance(self[key], collections.MutableSequence)\<close>, a name that
  Python resolves up to version 3.9; the model is of such an interpreter.
\<close>

fun apply_nested :: "(pyval \<Rightarrow> pyval) \<Rightarrow> pyval \<Rightarrow> pyval" where
  "apply_nested fn (VList xs) = VList (apply_seq fn 0 xs)"
| "apply_nested fn (VDict d g) = VDict (apply_subkeys fn d (map fst d)) g"
| "apply_nested fn v = v"

text \<open>
  The test that makes the loop of \<^verbatim>\<open>apply_fn\<close> \<^verbatim>\<open>continue\<close>: \<^verbatim>\<open>fields is not None and
  isinstance(fields, (list, tuple))\<close> and \<^verbatim>\<open>key not in fields\<close>; \<open>flds\<close> is the argument
  \<^verbatim>\<open>fields\<close>.
\<close>

definition skipped :: "pyval \<Rightarrow> string \<Rightarrow> bool" where
  "skipped flds key = (flds \<noteq> VNone \<and> is_tuple_or_list flds \<and> \<not> py_in (VStr key) flds)"

text \<open>The loop \<^verbatim>\<open>for key in self.keys()\<close> of \<^verbatim>\<open>apply_fn\<close>.\<close>

fun apply_fn_loop ::
  "(pyval \<Rightarrow> pyval) \<Rightarrow> pyval \<Rightarrow> report \<Rightarrow> string list \<Rightarrow> report" where
  "apply_fn_loop fn flds r [] = r"
| "apply_fn_loop fn flds r (key # keys) =
     (if skipped flds key
      then apply_fn_loop fn flds r keys
      else
        (case map_of r key of
           None \<Rightarrow> apply_fn_loop fn flds r keys
         | Some v \<Rightarrow>
             let r1 = setitem r key (fn v) in
             (case map_of r1 key of
                None \<Rightarrow> apply_fn_loop fn flds r1 keys
              | Some v1 \<Rightarrow> apply_fn_loop fn flds (setitem r1 key (apply_nested fn v1)) keys)))"

definition apply_fn :: "(pyval \<Rightarrow> pyval) \<Rightarrow> pyval \<Rightarrow> report \<Rightarrow> report" where
  "apply_fn fn flds r = apply_fn_loop fn flds r (fields r)"

section \<open>Accumulation across steps\<close>

text \<open>
  The tensor operations belong to torch and are written after its documentation. The
  dtype of a result is the promotion of the operands' dtypes; an \<open>Int64\<close> entry that
  becomes \<open>Float32\<close> is rounded by \<open>rnd\<close>, and an \<open>Int64\<close> result wraps around.
\<close>

fun promote :: "dtype \<Rightarrow> dtype \<Rightarrow> dtype" where
  "promote Int64 Int64 = Int64"
| "promote a b = Float32"

definition to_dtype :: "(rat \<Rightarrow> rat) \<Rightarrow> dtype \<Rightarrow> dtype \<Rightarrow> rat list \<Rightarrow> rat list" where
  "to_dtype rnd src dst d = (if src = Int64 \<and> dst = Float32 then map rnd d else d)"

definition wrap64 :: "rat \<Rightarrow> rat" where
  "wrap64 q = of_int ((\<lfloor>q\<rfloor> + 2 ^ 63) mod 2 ^ 64 - 2 ^ 63)"

text \<open>
  \<^verbatim>\<open>torch.cat((a, b), dim=0)\<close>: both are tensors with at least one dimension, on the same
  device, whose sizes agree except in the leading one; the result has the leading sizes
  added and, in row-major order, the entries of \<open>a\<close> followed by those of \<open>b\<close>. A
  one-dimensional empty tensor next to a tensor of another shape is skipped.
\<close>

fun torch_cat :: "(rat \<Rightarrow> rat) \<Rightarrow> pyval \<Rightarrow> pyval \<Rightarrow> error + pyval" where
  "torch_cat rnd (VTensor dt dev sh d) (VTensor dt' dev' sh' d') =
     (case (sh, sh') of
        (n # s, m # s') \<Rightarrow>
          if dev \<noteq> dev' then Inl RuntimeError
          else
            let p = promote dt dt'; a = to_dtype rnd dt p d; b = to_dtype rnd dt' p d' in
            if s = s' then Inr (VTensor p dev ((n + m) # s) (a @ b))
            else if sh = [0] then Inr (VTensor p dev sh' b)
            else if sh' = [0] then Inr (VTensor p dev sh a)
            else Inl RuntimeError
      | _ \<Rightarrow> Inl RuntimeError)"
| "torch_cat rnd a b = Inl TypeError"

text \<open>
  One entry of \<^verbatim>\<open>t += value\<close>, for an entry \<open>x\<close> of \<open>t\<close> of dtype \<open>dt\<close> and an entry \<open>y\<close> of a
  tensor of dtype \<open>dt'\<close>.
\<close>

definition add_entry :: "(rat \<Rightarrow> rat) \<Rightarrow> dtype \<Rightarrow> dtype \<Rightarrow> rat \<Rightarrow> rat \<Rightarrow> rat" where
  "add_entry rnd dt dt' x y =
     (case dt of
        Int64 \<Rightarrow> wrap64 (x + y)
      | Float32 \<Rightarrow> rnd (x + (if dt' = Int64 then rnd y else y)))"

text \<open>
  \<^verbatim>\<open>t += value\<close> on a tensor \<open>t\<close>: a number or a zero-dimensional tensor is added to
  every entry, a tensor of the same shape entry by entry. The result keeps the dtype of
  \<open>t\<close>, so a floating-point value cannot be added to an \<open>Int64\<close> tensor, and a Python
  integer added to one must fit in 64 bits. Operands on two devices and shapes that
  need other broadcasting are outside the model.
\<close>

fun tensor_iadd :: "(rat \<Rightarrow> rat) \<Rightarrow> pyval \<Rightarrow> pyval \<Rightarrow> error + pyval" where
  "tensor_iadd rnd (VTensor Float32 dev sh d) (VInt i) =
     Inr (VTensor Float32 dev sh (map (\<lambda>x. rnd (x + rnd (of_int i))) d))"
| "tensor_iadd rnd (VTensor Float32 dev sh d) (VFloat q) =
     Inr (VTensor Float32 dev sh (map (\<lambda>x. rnd (x + rnd q)) d))"
| "tensor_iadd rnd (VTensor Int64 dev sh d) (VInt i) =
     (if - (2 ^ 63) \<le> i \<and> i < 2 ^ 63
      then Inr (VTensor Int64 dev sh (map (\<lambda>x. wrap64 (x + of_int i)) d))
      else Inl RuntimeError)"
| "tensor_iadd rnd (VTensor Int64 dev sh d) (VFloat q) = Inl RuntimeError"
| "tensor_iadd rnd (VTensor dt dev sh d) (VTensor dt' dev' sh' d') =
     (if dev' \<noteq> dev then Inl Unmodelled
      else if dt = Int64 \<and> dt' = Float32 then Inl RuntimeError
      else if sh' = sh then
        Inr (VTensor dt dev sh (map (\<lambda>(x, y). add_entry rnd dt dt' x y) (zip d d')))
      else if sh' = [] then
        (case d' of
           [q] \<Rightarrow> Inr (VTensor dt dev sh (map (\<lambda>x. add_entry rnd dt dt' x q) d))
         | _ \<Rightarrow> Inl Unmodelled)
      else Inl Unmodelled)"
| "tensor_iadd rnd a b = Inl TypeError"

text \<open>The loop \<^verbatim>\<open>for key in field_list\<close> of \<^verbatim>\<open>accumulate_tensor_fields_and_loss\<close>.\<close>

fun accumulate_fields ::
  "(rat \<Rightarrow> rat) \<Rightarrow> report \<times> warnings \<Rightarrow> report \<Rightarrow> string list \<Rightarrow> error + report \<times> warnings"
  where
  "accumulate_fields rnd (r, w) other [] = Inr (r, w)"
| "accumulate_fields rnd (r, w) other (key # keys) =
     (if key = ''__prediction_report__'' then accumulate_fields rnd (r, w) other keys
      else if \<not> contains r key then
        accumulate_fields rnd
          (r, w @ [key @ '' not found in report. Metrics calculation '' @
                   ''might not work as expected.''])
          other keys
      else
        (case getitem r key of
           Inl e \<Rightarrow> Inl e
         | Inr (VTensor dt dev sh d) \<Rightarrow>
             (case getitem other key of
                Inl e \<Rightarrow> Inl e
              | Inr v \<Rightarrow>
                  (case torch_cat rnd (VTensor dt dev sh d) v of
                     Inl e \<Rightarrow> Inl e
                   | Inr t \<Rightarrow> accumulate_fields rnd (setitem r key t, w) other keys))
         | Inr v \<Rightarrow> accumulate_fields rnd (r, w) other keys))"

text \<open>
  The loop of \<^verbatim>\<open>_accumulate_loss\<close> over \<^verbatim>\<open>report.losses.items()\<close>. \<^verbatim>\<open>self.losses\<close> is read
  in every round; the dict it returns is updated in place.
\<close>

fun accumulate_loss_items ::
  "(rat \<Rightarrow> rat) \<Rightarrow> report \<times> warnings \<Rightarrow> (string \<times> pyval) list \<Rightarrow> error + report \<times> warnings"
  where
  "accumulate_loss_items rnd (r, w) [] = Inr (r, w)"
| "accumulate_loss_items rnd (r, w) ((key, v) # rest) =
     (case dunder_getattr r ''losses'' of
        Inl e \<Rightarrow> Inl e
      | Inr (VDict losses g) \<Rightarrow>
          if key \<notin> set (map fst losses) then
            accumulate_loss_items rnd
              (r, w @ [key @ '' not found in report. Loss calculation '' @
                       ''might not work as expected.''])
              rest
          else
            (case map_of losses key of
               Some (VTensor dt dev sh d) \<Rightarrow>
                 (case tensor_iadd rnd (VTensor dt dev sh d) v of
                    Inl e \<Rightarrow> Inl e
                  | Inr t \<Rightarrow>
                      accumulate_loss_items rnd
                        (setitem r ''losses'' (VDict (setitem losses key t) g), w) rest)
             | _ \<Rightarrow> accumulate_loss_items rnd (r, w) rest)
      | Inr x \<Rightarrow> Inl (AttributeError ''keys''))"

definition accumulate_loss ::
  "(rat \<Rightarrow> rat) \<Rightarrow> report \<times> warnings \<Rightarrow> report \<Rightarrow> error + report \<times> warnings" where
  "accumulate_loss rnd s other =
     (case dunder_getattr other ''losses'' of
        Inl e \<Rightarrow> Inl e
      | Inr (VDict losses g) \<Rightarrow> accumulate_loss_items rnd s losses
      | Inr x \<Rightarrow> Inl (AttributeError ''items''))"

definition accumulate_tensor_fields_and_loss ::
  "(rat \<Rightarrow> rat) \<Rightarrow> report \<times> warnings \<Rightarrow> report \<Rightarrow> string list \<Rightarrow> error + report \<times> warnings"
  where
  "accumulate_tensor_fields_and_loss rnd s other field_list =
     (case accumulate_fields rnd s other field_list of
        Inl e \<Rightarrow> Inl e
      | Inr s' \<Rightarrow> accumulate_loss rnd s' other)"

section \<open>Copy\<close>

text \<open>
  \<^verbatim>\<open>copy.deepcopy\<close> belongs to the standard library and is the parameter \<open>deepcopy\<close>, a
  function of the value copied. \<^verbatim>\<open>copy()\<close> starts from \<^verbatim>\<open>Report()\<close>, the empty Report.
\<close>

fun copy_loop :: "(pyval \<Rightarrow> pyval) \<Rightarrow> report \<Rightarrow> report \<Rightarrow> string list \<Rightarrow> report" where
  "copy_loop deepcopy self new [] = new"
| "copy_loop deepcopy self new (field # rest) =
     (case map_of self field of
        None \<Rightarrow> copy_loop deepcopy self new rest
      | Some v \<Rightarrow> copy_loop deepcopy self (setitem new field (deepcopy v)) rest)"

definition copy :: "(pyval \<Rightarrow> pyval) \<Rightarrow> report \<Rightarrow> report" where
  "copy deepcopy self = copy_loop deepcopy self [] (fields self)"

section \<open>Notions used in the statements\<close>

text \<open>
  Storing items one after the other with \<^verbatim>\<open>self[key] = value\<close>, which is what each
  loading loop of the constructor does to the store.
\<close>

definition store_all :: "report \<Rightarrow> (string \<times> pyval) list \<Rightarrow> report" where
  "store_all r kvs = fold (\<lambda>(k, v) s. setitem s k v) kvs r"

text \<open>
  A (string, value)-shaped pair: a tuple or a list that starts with a string and has a
  second component.
\<close>

fun pair_of :: "pyval \<Rightarrow> (string \<times> pyval) option" where
  "pair_of (VTuple (VStr k # v # rest)) = Some (k, v)"
| "pair_of (VList (VStr k # v # rest)) = Some (k, v)"
| "pair_of p = None"

text \<open>
  The warning of the merge loop for \<open>key\<close>, as \<open>py_format\<close> renders the template that
  \<^verbatim>\<open>__init__\<close> stores: the second field is empty and the third is \<^verbatim>\<open>"in previous arguments
  to report"\<close>.
\<close>

definition collision_warning :: "string \<Rightarrow> string" where
  "collision_warning key =
     ''Updating forward report with key '' @ key @
     '', but it already exists in in previous arguments to report. '' @
     ''Please consider using a different key, '' @
     ''as this can cause issues during loss and '' @
     ''metric calculations.''"






section \<open>A transform for the examples\<close>

text \<open>Adds one to an integer and returns every other value as it is.\<close>

definition add_one :: "pyval \<Rightarrow> pyval" where
  "add_one v = (case v of VInt i \<Rightarrow> VInt (i + 1) | w \<Rightarrow> w)"

section \<open>Facts about the store\<close>

lemma fields_setitem:
  "map fst (setitem r key v) = (if key \<in> set (map fst r) then map fst r else map fst r @ [key])"
  by (induction r) force+

lemma map_of_setitem: "map_of (setitem r key v) = (map_of r)(key \<mapsto> v)"
  by (induction r) (auto simp: fun_eq_iff)

lemma distinct_setitem:
  "distinct (map fst r) \<Longrightarrow> distinct (map fst (setitem r key v))"
  by (simp add: fields_setitem)

lemma setitem_present:
  "key \<in> set (map fst r) \<Longrightarrow> distinct (map fst r) \<Longrightarrow>
   setitem r key w = map (\<lambda>(k, x). (k, if k = key then w else x)) r"
proof (induction r)
  case Nil
  then show ?case by simp
next
  case (Cons p r)
  obtain k x where p: "p = (k, x)" by (cases p)
  show ?case
  proof (cases "k = key")
    case True
    with Cons.prems p have "key \<notin> set (map fst r)" by simp
    then have "map (\<lambda>(k, x). (k, if k = key then w else x)) r = r"
      by (induction r) auto
    with True p show ?thesis by simp
  next
    case False
    with Cons p show ?thesis by simp
  qed
qed

section \<open>Facts about the loops of apply_fn\<close>

lemma apply_seq_eq:
  "idx \<le> length xs \<Longrightarrow> apply_seq fn idx xs = take idx xs @ map fn (drop idx xs)"
proof (induction fn idx xs rule: apply_seq.induct)
  case (1 fn idx xs)
  show ?case
  proof (cases "idx < length xs")
    case True
    have "apply_seq fn idx xs = apply_seq fn (Suc idx) (xs[idx := fn (xs ! idx)])"
      using True by (subst apply_seq.simps) simp
    also have "\<dots> = take (Suc idx) (xs[idx := fn (xs ! idx)]) @
                     map fn (drop (Suc idx) (xs[idx := fn (xs ! idx)]))"
      using "1.IH" [OF True] True by simp
    also have "\<dots> = take idx xs @ map fn (drop idx xs)"
      using True by (simp add: take_Suc_conv_app_nth Cons_nth_drop_Suc [symmetric])
    finally show ?thesis .
  next
    case False
    with "1.prems" show ?thesis by (subst apply_seq.simps) simp
  qed
qed

lemma apply_seq_map: "apply_seq fn 0 xs = map fn xs"
  by (simp add: apply_seq_eq)

lemma apply_subkeys_eq:
  "distinct (map fst d) \<Longrightarrow> distinct ks \<Longrightarrow> set ks \<subseteq> set (map fst d) \<Longrightarrow>
   apply_subkeys fn d ks = map (\<lambda>(k, x). (k, if k \<in> set ks then fn x else x)) d"
proof (induction ks arbitrary: d)
  case Nil
  then show ?case by simp
next
  case (Cons key ks)
  from Cons.prems obtain v where v: "map_of d key = Some v"
    by (cases "map_of d key") (auto simp: map_of_eq_None_iff)
  let ?d = "setitem d key (fn v)"
  have d': "?d = map (\<lambda>(k, x). (k, if k = key then fn v else x)) d"
    using Cons.prems by (intro setitem_present) auto
  have keys: "map fst ?d = map fst d"
    using Cons.prems by (simp add: fields_setitem)
  have "apply_subkeys fn d (key # ks) = apply_subkeys fn ?d ks"
    using v by simp
  also have "\<dots> = map (\<lambda>(k, x). (k, if k \<in> set ks then fn x else x)) ?d"
    using Cons.prems keys by (intro Cons.IH) auto
  also have "\<dots> = map (\<lambda>(k, x). (k, if k \<in> set (key # ks) then fn x else x)) d"
    unfolding d' map_map
  proof (rule map_cong [OF refl])
    fix p assume p: "p \<in> set d"
    obtain k x where kx: "p = (k, x)" by (cases p)
    have xv: "x = v" if "k = key"
    proof -
      from p kx that have "(key, x) \<in> set d" by simp
      with Cons.prems(1) have "map_of d key = Some x" by (rule map_of_is_SomeI)
      with v show ?thesis by simp
    qed
    have nk: "key \<notin> set ks" using Cons.prems(2) by simp
    show "((\<lambda>(k, x). (k, if k \<in> set ks then fn x else x)) \<circ>
           (\<lambda>(k, x). (k, if k = key then fn v else x))) p =
          (\<lambda>(k, x). (k, if k \<in> set (key # ks) then fn x else x)) p"
    proof (cases "k = key")
      case True
      with xv have "x = v" by simp
      with True nk kx show ?thesis by simp
    next
      case False
      with kx show ?thesis by simp
    qed
  qed
  finally show ?case .
qed

lemma apply_subkeys_map:
  "distinct (map fst d) \<Longrightarrow> apply_subkeys fn d (map fst d) = map (\<lambda>(k, x). (k, fn x)) d"
proof -
  assume d: "distinct (map fst d)"
  have "map (\<lambda>(k, x). (k, if k \<in> set (map fst d) then fn x else x)) d =
        map (\<lambda>(k, x). (k, fn x)) d"
  proof (rule map_cong [OF refl])
    fix p assume "p \<in> set d"
    then have "fst p \<in> set (map fst d)" by simp
    then show "(\<lambda>(k, x). (k, if k \<in> set (map fst d) then fn x else x)) p =
               (\<lambda>(k, x). (k, fn x)) p"
      by (simp add: case_prod_unfold)
  qed
  with d show ?thesis by (simp add: apply_subkeys_eq)
qed



lemma apply_fn_loop_eq:
  "distinct (map fst r) \<Longrightarrow> distinct ks \<Longrightarrow> set ks \<subseteq> set (map fst r) \<Longrightarrow>
   apply_fn_loop fn flds r ks =
   map (\<lambda>(k, x). (k, if k \<in> set ks \<and> \<not> skipped flds k then apply_nested fn (fn x) else x)) r"
proof (induction ks arbitrary: r)
  case Nil
  then show ?case by simp
next
  case (Cons key ks)
  show ?case
  proof (cases "skipped flds key")
    case True
    then have "apply_fn_loop fn flds r (key # ks) = apply_fn_loop fn flds r ks"
      by simp
    also have "\<dots> = map (\<lambda>(k, x). (k, if k \<in> set ks \<and> \<not> skipped flds k
                                        then apply_nested fn (fn x) else x)) r"
      using Cons.prems by (intro Cons.IH) auto
    also have "\<dots> = map (\<lambda>(k, x). (k, if k \<in> set (key # ks) \<and> \<not> skipped flds k
                                        then apply_nested fn (fn x) else x)) r"
      using True by (intro map_cong [OF refl]) (auto simp: case_prod_unfold)
    finally show ?thesis .
  next
    case False
    from Cons.prems obtain v where v: "map_of r key = Some v"
      by (cases "map_of r key") (auto simp: map_of_eq_None_iff)
    let ?r1 = "setitem r key (fn v)"
    let ?r2 = "setitem ?r1 key (apply_nested fn (fn v))"
    have keys1: "map fst ?r1 = map fst r"
      using Cons.prems by (simp add: fields_setitem)
    have r2: "?r2 = map (\<lambda>(k, x). (k, if k = key then apply_nested fn (fn v) else x)) r"
    proof -
      have "?r1 = map (\<lambda>(k, x). (k, if k = key then fn v else x)) r"
        using Cons.prems by (intro setitem_present) auto
      moreover have "?r2 = map (\<lambda>(k, x). (k, if k = key then apply_nested fn (fn v) else x)) ?r1"
        using Cons.prems keys1 by (intro setitem_present) auto
      ultimately show ?thesis by (simp add: case_prod_unfold comp_def)
    qed
    have keys2: "map fst ?r2 = map fst r"
      unfolding r2 by (simp add: case_prod_unfold comp_def)
    have "apply_fn_loop fn flds r (key # ks) = apply_fn_loop fn flds ?r2 ks"
      using False v by (simp add: map_of_setitem)
    also have "\<dots> = map (\<lambda>(k, x). (k, if k \<in> set ks \<and> \<not> skipped flds k
                                        then apply_nested fn (fn x) else x)) ?r2"
      using Cons.prems keys2 by (intro Cons.IH) auto
    also have "\<dots> = map (\<lambda>(k, x). (k, if k \<in> set (key # ks) \<and> \<not> skipped flds k
                                        then apply_nested fn (fn x) else x)) r"
      unfolding r2 map_map
    proof (rule map_cong [OF refl])
      fix p assume p: "p \<in> set r"
      obtain k x where kx: "p = (k, x)" by (cases p)
      have "k = key \<Longrightarrow> x = v"
        using p kx v Cons.prems(1) by (simp add: map_of_is_SomeI)
      moreover have "key \<notin> set ks" using Cons.prems(2) by simp
      ultimately show
        "((\<lambda>(k, x). (k, if k \<in> set ks \<and> \<not> skipped flds k
                           then apply_nested fn (fn x) else x)) \<circ>
          (\<lambda>(k, x). (k, if k = key then apply_nested fn (fn v) else x))) p =
         (\<lambda>(k, x). (k, if k \<in> set (key # ks) \<and> \<not> skipped flds k
                          then apply_nested fn (fn x) else x)) p"
        using kx False by (cases "k = key") simp_all
    qed
    finally show ?thesis .
  qed
qed

lemma apply_fn_eq:
  "distinct (map fst r) \<Longrightarrow>
   apply_fn fn flds r =
   map (\<lambda>(k, x). (k, if skipped flds k then x else apply_nested fn (fn x))) r"
proof -
  assume d: "distinct (map fst r)"
  have "map (\<lambda>(k, x). (k, if k \<in> set (map fst r) \<and> \<not> skipped flds k
                               then apply_nested fn (fn x) else x)) r =
        map (\<lambda>(k, x). (k, if skipped flds k then x else apply_nested fn (fn x))) r"
    by (rule map_cong, simp, force)
  with d show ?thesis by (simp add: apply_fn_def fields_def apply_fn_loop_eq)
qed

lemma getitem_map_entry:
  "distinct (map fst r) \<Longrightarrow> (key, v) \<in> set r \<Longrightarrow>
   getitem (map (\<lambda>(k, x). (k, f k x)) r) key = Inr (f key v)"
proof -
  assume d: "distinct (map fst r)" and m: "(key, v) \<in> set r"
  have keys: "map fst (map (\<lambda>(k, x). (k, f k x)) r) = map fst r"
    by (simp add: case_prod_unfold comp_def)
  have "(key, f key v) \<in> set (map (\<lambda>(k, x). (k, f k x)) r)"
    using m by force
  moreover have "distinct (map fst (map (\<lambda>(k, x). (k, f k x)) r))"
    unfolding keys by (rule d)
  ultimately have "map_of (map (\<lambda>(k, x). (k, f k x)) r) key = Some (f key v)"
    by (intro map_of_is_SomeI)
  then show ?thesis by (simp add: getitem_def)
qed

lemma apply_nested_cases:
  "(\<And>d g. w = VDict d g \<Longrightarrow> distinct (map fst d)) \<Longrightarrow>
   apply_nested fn w =
     (case w of
        VList xs \<Rightarrow> VList (map fn xs)
      | VDict d g \<Rightarrow> VDict (map (\<lambda>(k, x). (k, fn x)) d) g
      | u \<Rightarrow> u)"
  by (cases w) (simp_all add: apply_seq_map apply_subkeys_map)

section \<open>Claims about apply_fn\<close>

text \<open>
  Claim C7, as the code has it. The loop of \<^verbatim>\<open>apply_fn\<close> skips a key exactly when the
  argument \<^verbatim>\<open>fields\<close> is a list or a tuple that does not contain the key. So a list or a
  tuple, empty or not, restricts the processing to the keys it contains (an empty one
  leaves every field as it was), and any other argument (omitted, \<^verbatim>\<open>None\<close>, or a
  collection that is neither a list nor a tuple) has every key processed. The fields and
  their order do not change.
\<close>

theorem apply_fn_fields_restriction:
  assumes "distinct (fields r)" and "(key, v) \<in> set r"
  shows "getitem (apply_fn fn flds r) key =
           Inr (if is_tuple_or_list flds \<and> \<not> py_in (VStr key) flds then v
                else apply_nested fn (fn v))
         \<and> fields (apply_fn fn flds r) = fields r"
proof -
  from assms(1) have d: "distinct (map fst r)" by (simp add: fields_def)
  have eq: "apply_fn fn flds r =
            map (\<lambda>(k, x). (k, if skipped flds k then x else apply_nested fn (fn x))) r"
    using d by (rule apply_fn_eq)
  have "getitem (apply_fn fn flds r) key =
        Inr (if skipped flds key then v else apply_nested fn (fn v))"
    unfolding eq using d assms(2) by (rule getitem_map_entry)
  moreover have "skipped flds key = (is_tuple_or_list flds \<and> \<not> py_in (VStr key) flds)"
    by (cases flds) (simp_all add: skipped_def)
  moreover have "fields (apply_fn fn flds r) = fields r"
    unfolding eq by (simp add: fields_def case_prod_unfold comp_def)
  ultimately show ?thesis by simp
qed

text \<open>
  Claim C6. With \<^verbatim>\<open>fields\<close> omitted, the value \<open>v\<close> of every key becomes \<open>fn v\<close>; when
  \<open>fn v\<close> is a list, \<open>fn\<close> is applied once more to each of its elements, when it is a
  dict, once more to each of its values, and nothing is applied below that level: an
  element that is itself a container receives \<open>fn\<close> as a whole and its own elements are
  not visited.
\<close>

theorem apply_fn_one_level:
  assumes "distinct (fields r)" and "(key, v) \<in> set r"
    and "\<And>d g. fn v = VDict d g \<Longrightarrow> distinct (map fst d)"
  shows "getitem (apply_fn fn VNone r) key =
           Inr (case fn v of
                  VList xs \<Rightarrow> VList (map fn xs)
                | VDict d g \<Rightarrow> VDict (map (\<lambda>(k, x). (k, fn x)) d) g
                | w \<Rightarrow> w)"
proof -
  from assms(1) have d: "distinct (map fst r)" by (simp add: fields_def)
  have eq: "apply_fn fn VNone r =
            map (\<lambda>(k, x). (k, if skipped VNone k then x else apply_nested fn (fn x))) r"
    using d by (rule apply_fn_eq)
  have "getitem (apply_fn fn VNone r) key =
        Inr (if skipped VNone key then v else apply_nested fn (fn v))"
    unfolding eq using d assms(2) by (rule getitem_map_entry)
  then have "getitem (apply_fn fn VNone r) key = Inr (apply_nested fn (fn v))"
    by (simp add: skipped_def)
  with apply_nested_cases [of "fn v" fn, OF assms(3)] show ?thesis by simp
qed

text \<open>
  An instance: the integer inside the list is incremented, the integer inside the list
  inside the list is not.
\<close>

theorem apply_fn_one_level_witness:
  "distinct (fields [(''a'', VInt 1), (''b'', VList [VInt 1, VList [VInt 1]])])
   \<and> (''b'', VList [VInt 1, VList [VInt 1]]) \<in> set [(''a'', VInt 1), (''b'', VList [VInt 1, VList [VInt 1]])]
   \<and> getitem (apply_fn add_one VNone [(''a'', VInt 1), (''b'', VList [VInt 1, VList [VInt 1]])]) ''b''
       = Inr (VList [VInt 2, VList [VInt 1]])"
  using apply_fn_one_level [of "[(''a'', VInt 1), (''b'', VList [VInt 1, VList [VInt 1]])]"
      "''b''" "VList [VInt 1, VList [VInt 1]]" add_one]
  by (simp add: fields_def add_one_def)

text \<open>Instances of the restriction: a tuple without the key, an empty tuple, a tuple with
  the key, and no restriction.\<close>

theorem apply_fn_fields_restriction_witness:
  "distinct (fields [(''a'', VInt 1), (''b'', VInt 5)])
   \<and> (''b'', VInt 5) \<in> set [(''a'', VInt 1), (''b'', VInt 5)]
   \<and> getitem (apply_fn add_one (VTuple [VStr ''a'']) [(''a'', VInt 1), (''b'', VInt 5)]) ''b'' = Inr (VInt 5)
   \<and> getitem (apply_fn add_one (VTuple []) [(''a'', VInt 1), (''b'', VInt 5)]) ''b'' = Inr (VInt 5)
   \<and> getitem (apply_fn add_one (VTuple [VStr ''b'']) [(''a'', VInt 1), (''b'', VInt 5)]) ''b'' = Inr (VInt 6)
   \<and> getitem (apply_fn add_one VNone [(''a'', VInt 1), (''b'', VInt 5)]) ''b'' = Inr (VInt 6)"
  using apply_fn_fields_restriction [of "[(''a'', VInt 1), (''b'', VInt 5)]" "''b''" "VInt 5" add_one "VTuple [VStr ''a'']"]
    apply_fn_fields_restriction [of "[(''a'', VInt 1), (''b'', VInt 5)]" "''b''" "VInt 5" add_one "VTuple []"]
    apply_fn_fields_restriction [of "[(''a'', VInt 1), (''b'', VInt 5)]" "''b''" "VInt 5" add_one "VTuple [VStr ''b'']"]
    apply_fn_fields_restriction [of "[(''a'', VInt 1), (''b'', VInt 5)]" "''b''" "VInt 5" add_one VNone]
  by (simp add: fields_def add_one_def)

text \<open>
  Claim C7 as the specification words it fails: with an empty list no key is processed,
  and a non-empty collection that is no list or tuple (here a dict) does not restrict
  the processing.
\<close>

theorem apply_fn_empty_fields_counterexample:
  "apply_fn add_one (VList []) [(''a'', VInt 1)] = [(''a'', VInt 1)]
   \<and> apply_fn add_one VNone [(''a'', VInt 1)] = [(''a'', VInt 2)]
   \<and> apply_fn add_one (VDict [(''b'', VNone)] None) [(''a'', VInt 1)] = [(''a'', VInt 2)]"
  by (simp add: apply_fn_def fields_def add_one_def skipped_def)

section \<open>Facts about reading and writing items\<close>

lemma getitem_setitem: "getitem (setitem r key v) key = Inr v"
  by (simp add: getitem_def map_of_setitem)

lemma getitem_setitem_other: "k \<noteq> key \<Longrightarrow> getitem (setitem r key v) k = getitem r k"
  by (simp add: getitem_def map_of_setitem)

lemma contains_setitem: "contains (setitem r key v) k = (k = key \<or> contains r k)"
  by (auto simp: contains_def fields_setitem)

lemma getitem_absent: "\<not> contains r key \<Longrightarrow> getitem r key = Inl (KeyError (VStr key))"
  by (simp add: getitem_def contains_def map_of_eq_None_iff [symmetric] del: map_of_eq_None_iff)

lemma getitem_present: "contains r key \<Longrightarrow> \<exists>v. getitem r key = Inr v"
  by (cases "map_of r key") (auto simp: getitem_def contains_def map_of_eq_None_iff)

section \<open>Facts about the loading loops of the constructor\<close>

lemma store_all_Nil [simp]: "store_all r [] = r"
  by (simp add: store_all_def)

lemma store_all_Cons [simp]: "store_all r ((k, v) # kvs) = store_all (setitem r k v) kvs"
  by (simp add: store_all_def)

lemma store_all_append: "store_all r (xs @ ys) = store_all (store_all r xs) ys"
  by (simp add: store_all_def)

lemma setitem_absent: "key \<notin> set (map fst r) \<Longrightarrow> setitem r key v = r @ [(key, v)]"
  by (induction r) auto

lemma store_all_prefix: "\<exists>ks. map fst (store_all r kvs) = map fst r @ ks"
proof (induction kvs arbitrary: r)
  case Nil
  then show ?case by simp
next
  case (Cons p kvs)
  obtain k v where p: "p = (k, v)" by (cases p)
  from Cons.IH [of "setitem r k v"] obtain ks
    where "map fst (store_all (setitem r k v) kvs) = map fst (setitem r k v) @ ks" by blast
  with p show ?case by (simp add: fields_setitem)
qed

lemma store_all_distinct:
  "distinct (map fst r) \<Longrightarrow> distinct (map fst (store_all r kvs))"
proof (induction kvs arbitrary: r)
  case Nil
  then show ?case by simp
next
  case (Cons p kvs)
  obtain k v where p: "p = (k, v)" by (cases p)
  from Cons.prems have "distinct (map fst (setitem r k v))" by (rule distinct_setitem)
  then have "distinct (map fst (store_all (setitem r k v) kvs))" by (rule Cons.IH)
  with p show ?case by simp
qed

lemma store_all_map_of_other:
  "k \<notin> set (map fst kvs) \<Longrightarrow> map_of (store_all r kvs) k = map_of r k"
proof (induction kvs arbitrary: r)
  case Nil
  then show ?case by simp
next
  case (Cons p kvs)
  obtain k' v where p: "p = (k', v)" by (cases p)
  with Cons.prems have "k \<noteq> k'" and "k \<notin> set (map fst kvs)" by auto
  with Cons.IH [of "setitem r k' v"] p show ?case by (simp add: map_of_setitem)
qed

lemma store_all_map_of:
  "distinct (map fst kvs) \<Longrightarrow> (k, v) \<in> set kvs \<Longrightarrow> map_of (store_all r kvs) k = Some v"
proof (induction kvs arbitrary: r)
  case Nil
  then show ?case by simp
next
  case (Cons p kvs)
  obtain k' v' where p: "p = (k', v')" by (cases p)
  show ?case
  proof (cases "(k, v) = p")
    case True
    with p Cons.prems(1) have "k \<notin> set (map fst kvs)" by auto
    then have "map_of (store_all (setitem r k v) kvs) k = map_of (setitem r k v) k"
      by (rule store_all_map_of_other)
    with True p show ?thesis by (simp add: map_of_setitem)
  next
    case False
    with Cons.prems have "(k, v) \<in> set kvs" and "distinct (map fst kvs)" by auto
    with Cons.IH [of "setitem r k' v'"] p show ?thesis by simp
  qed
qed

lemma store_all_fresh:
  "distinct (map fst kvs) \<Longrightarrow> set (map fst kvs) \<inter> set (map fst r) = {} \<Longrightarrow>
   store_all r kvs = r @ kvs"
proof (induction kvs arbitrary: r)
  case Nil
  then show ?case by simp
next
  case (Cons p kvs)
  obtain k v where p: "p = (k, v)" by (cases p)
  with Cons.prems have k: "k \<notin> set (map fst r)" by auto
  then have s: "setitem r k v = r @ [(k, v)]" by (rule setitem_absent)
  have "store_all (r @ [(k, v)]) kvs = (r @ [(k, v)]) @ kvs"
    using Cons.prems p by (intro Cons.IH) auto
  with p s show ?case by simp
qed

lemma load_pairs_eq:
  "map pair_of ps = map Some kvs \<Longrightarrow> load_pairs r ps = Inr (store_all r kvs)"
proof (induction ps arbitrary: kvs r)
  case Nil
  then show ?case by simp
next
  case (Cons p ps)
  from Cons.prems obtain k v kvs' where kvs: "kvs = (k, v) # kvs'"
    and p: "pair_of p = Some (k, v)" and rest: "map pair_of ps = map Some kvs'"
    by (cases kvs) auto
  from p have "py_index p 1 = Inr v \<and> py_index p 0 = Inr (VStr k)"
    by (induction p rule: pair_of.induct) simp_all
  with Cons.IH [OF rest, of "setitem r k v"] kvs show ?case by simp
qed

lemma store_all_map_of_rev: "map_of (store_all r kvs) = map_of r ++ map_of (rev kvs)"
proof (induction kvs arbitrary: r)
  case Nil
  then show ?case by simp
next
  case (Cons p kvs)
  obtain k v where p: "p = (k, v)" by (cases p)
  have "map_of (store_all (setitem r k v) kvs) = map_of (setitem r k v) ++ map_of (rev kvs)"
    by (rule Cons.IH)
  also have "\<dots> = (map_of r)(k \<mapsto> v) ++ map_of (rev kvs)"
    by (simp add: map_of_setitem)
  also have "\<dots> = map_of r ++ map_of (rev ((k, v) # kvs))"
    by (simp add: map_add_def fun_eq_iff split: option.splits)
  finally show ?case using p by simp
qed

lemma store_all_keys: "set (map fst (store_all r kvs)) = set (map fst r) \<union> set (map fst kvs)"
proof (induction kvs arbitrary: r)
  case Nil
  then show ?case by simp
next
  case (Cons p kvs)
  obtain k v where p: "p = (k, v)" by (cases p)
  have "set (map fst (store_all (setitem r k v) kvs)) =
        set (map fst (setitem r k v)) \<union> set (map fst kvs)"
    by (rule Cons.IH)
  with p show ?case by (auto simp: fields_setitem)
qed

lemma remdups_present:
  "k \<in> set zs \<Longrightarrow> remdups (ys @ k # zs) = remdups (ys @ zs)"
  by (induction ys) (auto simp: insert_absorb)

lemma remdups_rev_present:
  "k \<in> set xs \<Longrightarrow> remdups (rev (xs @ k # ys)) = remdups (rev (xs @ ys))"
  using remdups_present [of k "rev xs" "rev ys"] by simp

lemma store_all_field_order:
  "distinct (map fst r) \<Longrightarrow>
   map fst (store_all r kvs) = rev (remdups (rev (map fst r @ map fst kvs)))"
proof (induction kvs arbitrary: r)
  case Nil
  then show ?case by (simp add: distinct_remdups_id)
next
  case (Cons p kvs)
  obtain k v where p: "p = (k, v)" by (cases p)
  from Cons.prems have d: "distinct (map fst (setitem r k v))" by (rule distinct_setitem)
  have ih: "map fst (store_all (setitem r k v) kvs) =
            rev (remdups (rev (map fst (setitem r k v) @ map fst kvs)))"
    using d by (rule Cons.IH)
  show ?case
  proof (cases "k \<in> set (map fst r)")
    case True
    then have "remdups (rev (map fst r @ k # map fst kvs)) = remdups (rev (map fst r @ map fst kvs))"
      by (rule remdups_rev_present)
    with True ih p show ?thesis by (simp add: fields_setitem)
  next
    case False
    with ih p show ?thesis by (simp add: fields_setitem)
  qed
qed

lemma merge_items_fst:
  "merge_items idx (r, w) kvs = Inr (r', w') \<Longrightarrow> r' = store_all r kvs"
proof (induction kvs arbitrary: r w)
  case Nil
  then show ?case by simp
next
  case (Cons p kvs)
  obtain k v where p: "p = (k, v)" by (cases p)
  show ?case
  proof (cases "contains r k \<and> idx \<ge> 2")
    case True
    with Cons.prems p obtain m where "format_warning r k = Inr m"
      and "merge_items idx (setitem r k v, w @ [m]) kvs = Inr (r', w')"
      by (cases "format_warning r k") auto
    then have "r' = store_all (setitem r k v) kvs" using Cons.IH by blast
    with p show ?thesis by simp
  next
    case False
    with Cons.prems p have "merge_items idx (setitem r k v, w) kvs = Inr (r', w')"
      by auto
    then have "r' = store_all (setitem r k v) kvs" by (rule Cons.IH)
    with p show ?thesis by simp
  qed
qed

lemma merge_items_silent:
  "idx < 2 \<Longrightarrow> merge_items idx (r, w) kvs = Inr (store_all r kvs, w)"
proof (induction kvs arbitrary: r)
  case Nil
  then show ?case by simp
next
  case (Cons p kvs)
  obtain k v where p: "p = (k, v)" by (cases p)
  from Cons.prems Cons.IH [OF Cons.prems, of "setitem r k v"] p show ?case by simp
qed

lemma merge_args_prefix:
  "merge_args idx (r, w) args = Inr (r', w') \<Longrightarrow>
   (\<exists>ks. map fst r' = map fst r @ ks) \<and> (distinct (map fst r) \<longrightarrow> distinct (map fst r'))"
proof (induction args arbitrary: idx r w)
  case Nil
  then show ?case by simp
next
  case (Cons a args)
  from Cons.prems obtain r1 w1 where m: "merge_items idx (r, w) (items_of a) = Inr (r1, w1)"
    and rest: "merge_args (Suc idx) (r1, w1) args = Inr (r', w')"
    by (cases "merge_items idx (r, w) (items_of a)") auto
  from m have r1: "r1 = store_all r (items_of a)" by (rule merge_items_fst)
  from store_all_prefix [of r "items_of a"] r1 obtain ks1
    where k1: "map fst r1 = map fst r @ ks1" by blast
  from Cons.IH [OF rest] obtain ks2 where k2: "map fst r' = map fst r1 @ ks2"
    and d2: "distinct (map fst r1) \<longrightarrow> distinct (map fst r')" by blast
  from k1 k2 have "map fst r' = map fst r @ (ks1 @ ks2)" by simp
  moreover have "distinct (map fst r) \<longrightarrow> distinct (map fst r')"
    using d2 r1 store_all_distinct by blast
  ultimately show ?case by blast
qed

lemma dunder_init_mapping:
  assumes "dunder_init (VDict bi g) model_output args = Inr (r, w)"
  shows "\<exists>bs. g = Some bs \<and>
           merge_args 0 ([(''batch_size'', bs), (''warning_string'', VStr warning_string)], [])
             ([VDict bi g, if model_output = VNone then VDict [] None else model_output] @ args)
           = Inr (r, w)"
proof (cases g)
  case None
  with assms show ?thesis
    by (simp add: dunder_init_def check_and_load_tuple_def Let_def split: option.splits)
next
  case (Some bs)
  with assms show ?thesis
    by (simp add: dunder_init_def check_and_load_tuple_def dunder_setattr_def Let_def
        split: option.splits if_splits)
qed

lemma dunder_init_mapping_fields:
  assumes "is_mapping batch" and "dunder_init batch model_output args = Inr (r, w)"
  shows "\<exists>ks. fields r = ''batch_size'' # ''warning_string'' # ks \<and> distinct (fields r)"
proof -
  from assms(1) obtain bi g where b: "batch = VDict bi g" by (cases batch) auto
  from dunder_init_mapping [OF assms(2) [unfolded b]] obtain bs where
    m: "merge_args 0 ([(''batch_size'', bs), (''warning_string'', VStr warning_string)], [])
             ([VDict bi g, if model_output = VNone then VDict [] None else model_output] @ args)
           = Inr (r, w)" by blast
  from merge_args_prefix [OF m] show ?thesis by (auto simp: fields_def)
qed

lemma get_batch_size_iff:
  "(\<exists>v. get_batch_size s = Inr v) \<longleftrightarrow> contains s ''batch_size'' \<or> contains s ''_batch_size''"
proof -
  have a: "(\<exists>v. dunder_getattr s k = Inr v) \<longleftrightarrow> contains s k" for k
  proof (cases "contains s k")
    case True
    then obtain v where "getitem s k = Inr v" using getitem_present by blast
    with True show ?thesis by (simp add: dunder_getattr_def)
  next
    case False
    then have "getitem s k = Inl (KeyError (VStr k))" by (rule getitem_absent)
    with False show ?thesis by (simp add: dunder_getattr_def)
  qed
  show ?thesis
    using a [of "''batch_size''"] a [of "''_batch_size''"]
    by (auto simp: get_batch_size_def batch_size_property_def split: sum.splits)
qed

lemma store_all_fields:
  "distinct (map fst kvs) \<Longrightarrow>
   map fst (store_all r kvs) = map fst r @ filter (\<lambda>k. k \<notin> set (map fst r)) (map fst kvs)"
proof (induction kvs arbitrary: r)
  case Nil
  then show ?case by simp
next
  case (Cons p kvs)
  obtain k v where p: "p = (k, v)" by (cases p)
  from Cons.prems p have k: "k \<notin> set (map fst kvs)" and d: "distinct (map fst kvs)" by auto
  have ih: "map fst (store_all (setitem r k v) kvs) =
            map fst (setitem r k v) @
            filter (\<lambda>x. x \<notin> set (map fst (setitem r k v))) (map fst kvs)"
    using d by (rule Cons.IH)
  have f: "filter (\<lambda>x. x \<notin> set (map fst (setitem r k v))) (map fst kvs) =
           filter (\<lambda>x. x \<notin> set (map fst r)) (map fst kvs)"
    using k by (intro filter_cong) (auto simp: fields_setitem)
  show ?case
    using p ih f by (simp add: fields_setitem)
qed

lemma getitem_apply_fn:
  assumes "distinct (fields r)" and "(key, v) \<in> set r"
  shows "getitem (apply_fn fn flds r) key =
           Inr (if skipped flds key then v else apply_nested fn (fn v))"
proof -
  from assms(1) have d: "distinct (map fst r)" by (simp add: fields_def)
  have eq: "apply_fn fn flds r =
            map (\<lambda>(k, x). (k, if skipped flds k then x else apply_nested fn (fn x))) r"
    using d by (rule apply_fn_eq)
  show ?thesis unfolding eq using d assms(2) by (rule getitem_map_entry)
qed

lemma pair_of_head:
  "pair_of p = Some (k, v) \<Longrightarrow> is_tuple_or_list p \<and> py_index p 0 = Inr (VStr k)"
  by (induction p rule: pair_of.induct) simp_all

lemmas init_eval = dunder_init_def check_and_load_tuple_def dunder_setattr_def contains_def Let_def

section \<open>Claims about attribute access\<close>

text \<open>
  Claim C5, as the code has it. Writing \<^verbatim>\<open>report.x = v\<close> writes the item \<open>x\<close> for every
  name \<open>x\<close>, so the write is visible through the subscript. \<^verbatim>\<open>report.name\<close> reaches
  \<^verbatim>\<open>__getattr__\<close> only when the name is no attribute of the class: for every name that is
  neither bound in the class body nor inherited, and for \<^verbatim>\<open>batch_size\<close> as long as no item
  \<^verbatim>\<open>_batch_size\<close> exists, reading the attribute gives the item, an item written by either
  syntax is what the attribute then reads, and reading fails with AttributeError (never
  KeyError) when the item is absent.
\<close>

theorem attribute_access_unified:
  "getitem (attr_write r x v) x = Inr v
   \<and> (name \<notin> set report_methods \<and> name \<notin> set inherited
        \<and> (name = ''batch_size'' \<longrightarrow> \<not> contains r ''_batch_size'')
      \<longrightarrow> attr_read inherited r name =
            (case getitem r name of Inr y \<Rightarrow> Inr (Field y) | Inl e \<Rightarrow> Inl (AttributeError name))
          \<and> attr_read inherited (setitem r name v) name = Inr (Field v)
          \<and> attr_read inherited (attr_write r name v) name = Inr (Field v)
          \<and> (\<not> contains r name \<longrightarrow> attr_read inherited r name = Inl (AttributeError name)))"
proof -
  have wr: "getitem (attr_write r x v) x = Inr v"
    by (simp add: attr_write_def dunder_setattr_def getitem_setitem)
  have rest: "attr_read inherited r name =
            (case getitem r name of Inr y \<Rightarrow> Inr (Field y) | Inl e \<Rightarrow> Inl (AttributeError name))
          \<and> attr_read inherited (setitem r name v) name = Inr (Field v)
          \<and> attr_read inherited (attr_write r name v) name = Inr (Field v)
          \<and> (\<not> contains r name \<longrightarrow> attr_read inherited r name = Inl (AttributeError name))"
    if a1: "name \<notin> set report_methods" and a2: "name \<notin> set inherited"
      and a3: "name = ''batch_size'' \<longrightarrow> \<not> contains r ''_batch_size''"
  proof -
    have rd: "attr_read inherited s name =
          (case getitem s name of Inr y \<Rightarrow> Inr (Field y) | Inl e \<Rightarrow> Inl (AttributeError name))"
      if "name = ''batch_size'' \<Longrightarrow> \<not> contains s ''_batch_size''" for s
    proof (cases "name = ''batch_size''")
      case True
      with that have "getitem s ''_batch_size'' = Inl (KeyError (VStr ''_batch_size''))"
        by (simp add: getitem_absent)
      with True show ?thesis
        by (simp add: attr_read_def batch_size_property_def dunder_getattr_def split: sum.splits)
    next
      case False
      with a1 a2 show ?thesis
        by (simp add: attr_read_def dunder_getattr_def split: sum.splits)
    qed
    have r1: "attr_read inherited r name =
          (case getitem r name of Inr y \<Rightarrow> Inr (Field y) | Inl e \<Rightarrow> Inl (AttributeError name))"
      using a3 by (intro rd) simp
    have "name = ''batch_size'' \<Longrightarrow> \<not> contains (setitem r name v) ''_batch_size''"
      using a3 by (simp add: contains_setitem)
    then have r3: "attr_read inherited (setitem r name v) name = Inr (Field v)"
      by (simp add: rd getitem_setitem)
    then have r3w: "attr_read inherited (attr_write r name v) name = Inr (Field v)"
      by (simp add: attr_write_def dunder_setattr_def)
    have r4: "\<not> contains r name \<longrightarrow> attr_read inherited r name = Inl (AttributeError name)"
      using r1 by (simp add: getitem_absent)
    from r1 r3 r3w r4 show ?thesis by blast
  qed
  from wr rest show ?thesis by blast
qed

text \<open>
  An instance, with three of the names a Report inherits from OrderedDict; the write is
  through the name of a method.
\<close>

theorem attribute_access_unified_witness:
  "getitem (attr_write [(''scores'', VInt 3)] ''fields'' (VInt 4)) ''fields'' = Inr (VInt 4)
   \<and> ''scores'' \<notin> set report_methods \<and> ''scores'' \<notin> set [''keys'', ''items'', ''values'']
   \<and> attr_read [''keys'', ''items'', ''values''] [(''scores'', VInt 3)] ''scores'' = Inr (Field (VInt 3))
   \<and> attr_read [''keys'', ''items'', ''values''] (setitem [(''scores'', VInt 3)] ''scores'' (VInt 4)) ''scores''
       = Inr (Field (VInt 4))
   \<and> attr_read [''keys'', ''items'', ''values''] (attr_write [(''scores'', VInt 3)] ''scores'' (VInt 4)) ''scores''
       = Inr (Field (VInt 4))
   \<and> attr_read [''keys'', ''items'', ''values''] [] ''scores'' = Inl (AttributeError ''scores'')"
  using attribute_access_unified [of "[(''scores'', VInt 3)]" "''fields''" "VInt 4" "''scores''"
      "[''keys'', ''items'', ''values'']"]
    attribute_access_unified [of "[]" "''fields''" "VInt 4" "''scores''" "[''keys'', ''items'', ''values'']"]
  by (simp add: report_methods_def getitem_def contains_def)

text \<open>
  Claim C5 as worded ("every key") fails for the names of the class: an item
  \<^verbatim>\<open>fields\<close> is read by subscript, while \<^verbatim>\<open>report.fields\<close> is the method; with an item
  \<^verbatim>\<open>_batch_size\<close> present, \<^verbatim>\<open>report.batch_size\<close> is that item and not the item
  \<^verbatim>\<open>batch_size\<close>; and reading \<^verbatim>\<open>report.copy\<close> on an empty Report raises nothing.
\<close>

theorem attribute_access_counterexample:
  "dunder_init (VList [VTuple [VStr ''fields'', VInt 1]]) VNone [] = Inr ([(''fields'', VInt 1)], [])
   \<and> getitem [(''fields'', VInt 1)] ''fields'' = Inr (VInt 1)
   \<and> attr_read [''keys'', ''items'', ''values''] [(''fields'', VInt 1)] ''fields'' = Inr (BoundMethod ''fields'')
   \<and> getitem [(''batch_size'', VInt 1), (''_batch_size'', VInt 2)] ''batch_size'' = Inr (VInt 1)
   \<and> attr_read [''keys'', ''items'', ''values''] [(''batch_size'', VInt 1), (''_batch_size'', VInt 2)] ''batch_size''
       = Inr (Field (VInt 2))
   \<and> attr_read [''keys'', ''items'', ''values''] [] ''copy'' = Inr (BoundMethod ''copy'')"
  by (simp add: dunder_init_def check_and_load_tuple_def getitem_def attr_read_def report_methods_def
      batch_size_property_def dunder_getattr_def)

section \<open>Claims about construction\<close>

text \<open>
  Claim C4, as the code has it. A non-empty list or tuple all of whose elements are
  (string, value)-shaped pairs is loaded pair by pair; \<^verbatim>\<open>model_output\<close> and the extra
  arguments play no part, and no warning is issued. The fields are the keys of the pairs
  in the order of their first occurrence, every key holds the value of its last pair,
  and when the keys are distinct the Report is exactly the pairs in their order.
\<close>

theorem tuple_of_pairs_construction:
  assumes "batch = VList ps \<or> batch = VTuple ps" and "ps \<noteq> []"
    and "map pair_of ps = map Some kvs"
  shows "\<exists>r. dunder_init batch model_output args = Inr (r, [])
           \<and> fields r = rev (remdups (rev (map fst kvs)))
           \<and> (\<forall>k. map_of r k = map_of (rev kvs) k)
           \<and> set (fields r) = set (map fst kvs) \<and> distinct (fields r)
           \<and> (distinct (map fst kvs) \<longrightarrow> r = kvs)"
proof -
  from assms(2,3) obtain p ps' k v kvs' where ps: "ps = p # ps'" and kvs: "kvs = (k, v) # kvs'"
    and p: "pair_of p = Some (k, v)"
    by (cases ps; cases kvs) auto
  from pair_of_head [OF p] have h: "is_tuple_or_list p" "py_index p 0 = Inr (VStr k)" by simp_all
  have l: "load_pairs [] ps = Inr (store_all [] kvs)"
    using assms(3) by (rule load_pairs_eq)
  have "check_and_load_tuple [] batch = Inr (True, store_all [] kvs)"
    using assms(1) ps h l by (auto simp: check_and_load_tuple_def)
  moreover have "batch \<noteq> VNone" using assms(1) by auto
  ultimately have i: "dunder_init batch model_output args = Inr (store_all [] kvs, [])"
    by (simp add: dunder_init_def Let_def)
  have o: "fields (store_all [] kvs) = rev (remdups (rev (map fst kvs)))"
    using store_all_field_order [of "[]" kvs] by (simp add: fields_def)
  have m: "\<forall>k. map_of (store_all [] kvs) k = map_of (rev kvs) k"
    by (simp add: store_all_map_of_rev)
  have s: "set (fields (store_all [] kvs)) = set (map fst kvs)"
    using store_all_keys [of "[]" kvs] by (simp add: fields_def)
  have d: "distinct (fields (store_all [] kvs))"
    by (simp add: fields_def store_all_distinct)
  have e: "distinct (map fst kvs) \<longrightarrow> store_all [] kvs = kvs"
    by (simp add: store_all_fresh)
  show ?thesis
    by (rule exI [of _ "store_all [] kvs"]) (intro conjI i o m s d e)
qed

text \<open>
  Two instances: a list with a repeated key, and a tuple of two pairs; the
  \<^verbatim>\<open>model_output\<close> and the extra argument are both ignored.
\<close>

theorem tuple_of_pairs_construction_witness:
  "[VTuple [VStr ''a'', VInt 1], VList [VStr ''b'', VInt 2], VTuple [VStr ''a'', VInt 3]] \<noteq> []
   \<and> map pair_of [VTuple [VStr ''a'', VInt 1], VList [VStr ''b'', VInt 2], VTuple [VStr ''a'', VInt 3]]
       = map Some [(''a'', VInt 1), (''b'', VInt 2), (''a'', VInt 3)]
   \<and> dunder_init (VList [VTuple [VStr ''a'', VInt 1], VList [VStr ''b'', VInt 2], VTuple [VStr ''a'', VInt 3]])
        (VDict [(''c'', VInt 3)] None) [VDict [(''d'', VInt 4)] None]
       = Inr ([(''a'', VInt 3), (''b'', VInt 2)], [])
   \<and> dunder_init (VTuple [VTuple [VStr ''a'', VInt 1], VList [VStr ''b'', VInt 2]])
        (VDict [(''c'', VInt 3)] None) [VDict [(''d'', VInt 4)] None]
       = Inr ([(''a'', VInt 1), (''b'', VInt 2)], [])"
proof -
  have e: "dunder_init (VList [VTuple [VStr ''a'', VInt 1], VList [VStr ''b'', VInt 2], VTuple [VStr ''a'', VInt 3]])
        (VDict [(''c'', VInt 3)] None) [VDict [(''d'', VInt 4)] None]
       = Inr ([(''a'', VInt 3), (''b'', VInt 2)], [])"
    by (simp add: init_eval)
  from tuple_of_pairs_construction [of "VTuple [VTuple [VStr ''a'', VInt 1], VList [VStr ''b'', VInt 2]]"
      "[VTuple [VStr ''a'', VInt 1], VList [VStr ''b'', VInt 2]]" "[(''a'', VInt 1), (''b'', VInt 2)]"
      "VDict [(''c'', VInt 3)] None" "[VDict [(''d'', VInt 4)] None]"] e
  show ?thesis by auto
qed

text \<open>
  Claim C4 as worded fails: the test of \<^verbatim>\<open>_check_and_load_tuple\<close> looks at the first
  element only, and the loop then subscripts every element. After a first element
  \<^verbatim>\<open>("a", 1)\<close>, the element \<^verbatim>\<open>5\<close> raises TypeError, the element \<^verbatim>\<open>{}\<close> raises KeyError, and
  the element \<^verbatim>\<open>("b",)\<close> raises IndexError.
\<close>

theorem tuple_of_pairs_counterexample:
  "dunder_init (VList [VTuple [VStr ''a'', VInt 1], VInt 5]) VNone [] = Inl TypeError
   \<and> dunder_init (VList [VTuple [VStr ''a'', VInt 1], VDict [] None]) VNone [] = Inl (KeyError (VInt 1))
   \<and> dunder_init (VList [VTuple [VStr ''a'', VInt 1], VTuple [VStr ''b'']]) VNone [] = Inl IndexError"
  by (simp add: init_eval)

text \<open>
  Claim C3, as the code has it. A Report built by the merge path (a mapping batch)
  always answers \<^verbatim>\<open>get_batch_size()\<close>. For any Report, the call succeeds exactly when an
  item \<^verbatim>\<open>batch_size\<close> or \<^verbatim>\<open>_batch_size\<close> exists, so a Report loaded from pairs has a
  batch size only if the pairs bring one. A Report built with no batch is empty and
  the call raises AttributeError.
\<close>

theorem batch_size_presence:
  "(is_mapping batch \<and> dunder_init batch model_output args = Inr (r, w)
      \<longrightarrow> (\<exists>v. get_batch_size r = Inr v))
   \<and> ((\<exists>v. get_batch_size s = Inr v) \<longleftrightarrow> contains s ''batch_size'' \<or> contains s ''_batch_size'')
   \<and> dunder_init VNone model_output args = Inr ([], [])
   \<and> get_batch_size [] = Inl (AttributeError ''batch_size'')"
proof -
  have "\<exists>v. get_batch_size r = Inr v"
    if "is_mapping batch" and "dunder_init batch model_output args = Inr (r, w)"
  proof -
    from dunder_init_mapping_fields [OF that] have "contains r ''batch_size''"
      by (auto simp: contains_def fields_def)
    then show ?thesis by (simp add: get_batch_size_iff)
  qed
  moreover have "dunder_init VNone model_output args = Inr ([], [])"
    by (simp add: dunder_init_def)
  moreover have "get_batch_size [] = Inl (AttributeError ''batch_size'')"
    by (simp add: get_batch_size_def batch_size_property_def dunder_getattr_def getitem_def)
  ultimately show ?thesis using get_batch_size_iff [of s] by blast
qed

text \<open>
  An instance of the merge path.
\<close>

theorem batch_size_presence_witness:
  "is_mapping (VDict [(''a'', VInt 1)] (Some (VInt 2)))
   \<and> dunder_init (VDict [(''a'', VInt 1)] (Some (VInt 2))) VNone []
       = Inr ([(''batch_size'', VInt 2), (''warning_string'', VStr warning_string), (''a'', VInt 1)], [])
   \<and> (\<exists>v. get_batch_size
              [(''batch_size'', VInt 2), (''warning_string'', VStr warning_string), (''a'', VInt 1)]
            = Inr v)"
proof -
  have e: "dunder_init (VDict [(''a'', VInt 1)] (Some (VInt 2))) VNone []
       = Inr ([(''batch_size'', VInt 2), (''warning_string'', VStr warning_string), (''a'', VInt 1)], [])"
    by (simp add: init_eval)
  from e batch_size_presence [of "VDict [(''a'', VInt 1)] (Some (VInt 2))" VNone "[]"
      "[(''batch_size'', VInt 2), (''warning_string'', VStr warning_string), (''a'', VInt 1)]" "[]"]
  show ?thesis by simp
qed

text \<open>
  Claim C3 as worded fails on the path of pairs: the batch \<^verbatim>\<open>[("a", 1)]\<close> is not
  empty, and the Report built from it has no batch size.
\<close>

theorem batch_size_presence_counterexample:
  "dunder_init (VList [VTuple [VStr ''a'', VInt 1]]) VNone [] = Inr ([(''a'', VInt 1)], [])
   \<and> get_batch_size [(''a'', VInt 1)] = Inl (AttributeError ''batch_size'')"
  by (simp add: init_eval get_batch_size_def batch_size_property_def dunder_getattr_def getitem_def)

text \<open>
  Claim C1, as the code has it. For a batch that answers \<^verbatim>\<open>get_batch_size()\<close> and a
  \<^verbatim>\<open>model_output\<close> with disjoint keys, the fields are \<^verbatim>\<open>batch_size\<close>, \<^verbatim>\<open>warning_string\<close>,
  then the keys of the batch and then those of \<^verbatim>\<open>model_output\<close>, each in its order (a
  source key with one of the two reserved names stays at the front); every key holds
  the value of its source and no warning is issued.
\<close>

theorem merged_fields_order:
  assumes "distinct (map fst bi)" and "distinct (map fst mi)"
    and "set (map fst bi) \<inter> set (map fst mi) = {}"
  shows "\<exists>r. dunder_init (VDict bi (Some bs)) (VDict mi g) [] = Inr (r, [])
           \<and> fields r = ''batch_size'' # ''warning_string'' #
               filter (\<lambda>k. k \<noteq> ''batch_size'' \<and> k \<noteq> ''warning_string'') (map fst bi @ map fst mi)
           \<and> (\<forall>k v. (k, v) \<in> set mi \<longrightarrow> getitem r k = Inr v)
           \<and> (\<forall>k v. (k, v) \<in> set bi \<longrightarrow> getitem r k = Inr v)"
proof -
  let ?r0 = "[(''batch_size'', bs), (''warning_string'', VStr warning_string)]"
  let ?r1 = "store_all ?r0 bi"
  let ?r2 = "store_all ?r1 mi"
  have i: "dunder_init (VDict bi (Some bs)) (VDict mi g) [] = Inr (?r2, [])"
    by (simp add: dunder_init_def check_and_load_tuple_def dunder_setattr_def Let_def
        merge_items_silent)
  have k1: "map fst ?r1 = ''batch_size'' # ''warning_string'' #
              filter (\<lambda>k. k \<noteq> ''batch_size'' \<and> k \<noteq> ''warning_string'') (map fst bi)"
    using assms(1) by (simp add: store_all_fields)
  have "filter (\<lambda>k. k \<notin> set (map fst ?r1)) (map fst mi) =
        filter (\<lambda>k. k \<noteq> ''batch_size'' \<and> k \<noteq> ''warning_string'') (map fst mi)"
    unfolding k1 using assms(3) by (intro filter_cong) auto
  with assms(2) have k2: "map fst ?r2 = ''batch_size'' # ''warning_string'' #
              filter (\<lambda>k. k \<noteq> ''batch_size'' \<and> k \<noteq> ''warning_string'') (map fst bi @ map fst mi)"
    by (simp add: store_all_fields [of mi ?r1] k1)
  have vm: "getitem ?r2 k = Inr v" if "(k, v) \<in> set mi" for k v
    using store_all_map_of [OF assms(2) that, of ?r1] by (simp add: getitem_def)
  have vb: "getitem ?r2 k = Inr v" if "(k, v) \<in> set bi" for k v
  proof -
    from that assms(3) have "k \<notin> set (map fst mi)" by force
    then have "map_of ?r2 k = map_of ?r1 k" by (rule store_all_map_of_other)
    with store_all_map_of [OF assms(1) that, of ?r0] show ?thesis by (simp add: getitem_def)
  qed
  have a: "\<forall>k v. (k, v) \<in> set mi \<longrightarrow> getitem ?r2 k = Inr v" using vm by blast
  have b: "\<forall>k v. (k, v) \<in> set bi \<longrightarrow> getitem ?r2 k = Inr v" using vb by blast
  have f: "fields ?r2 = ''batch_size'' # ''warning_string'' #
              filter (\<lambda>k. k \<noteq> ''batch_size'' \<and> k \<noteq> ''warning_string'') (map fst bi @ map fst mi)"
    unfolding fields_def by (rule k2)
  show ?thesis
    by (rule exI [of _ ?r2]) (intro conjI i f a b)
qed

text \<open>
  An instance with one key in each source.
\<close>

theorem merged_fields_order_witness:
  "distinct (map fst [(''a'', VInt 1)]) \<and> distinct (map fst [(''b'', VInt 3)])
   \<and> set (map fst [(''a'', VInt 1)]) \<inter> set (map fst [(''b'', VInt 3)]) = {}
   \<and> (\<exists>r. dunder_init (VDict [(''a'', VInt 1)] (Some (VInt 2))) (VDict [(''b'', VInt 3)] None) []
            = Inr (r, [])
          \<and> fields r = [''batch_size'', ''warning_string'', ''a'', ''b'']
          \<and> getitem r ''a'' = Inr (VInt 1) \<and> getitem r ''b'' = Inr (VInt 3))"
  using merged_fields_order [of "[(''a'', VInt 1)]" "[(''b'', VInt 3)]" "VInt 2" None]
  by auto

text \<open>
  Claim C1 as worded fails: the Report has the two fields \<^verbatim>\<open>batch_size\<close> and
  \<^verbatim>\<open>warning_string\<close> besides the keys of the sources, and a batch that is a plain dict
  (no \<^verbatim>\<open>get_batch_size\<close>) cannot be used at all.
\<close>

theorem merged_fields_order_counterexample:
  "dunder_init (VDict [(''a'', VInt 1)] (Some (VInt 2))) (VDict [(''b'', VInt 3)] None) []
     = Inr ([(''batch_size'', VInt 2), (''warning_string'', VStr warning_string),
             (''a'', VInt 1), (''b'', VInt 3)], [])
   \<and> fields [(''batch_size'', VInt 2), (''warning_string'', VStr warning_string),
              (''a'', VInt 1), (''b'', VInt 3)]
       = [''batch_size'', ''warning_string'', ''a'', ''b'']
   \<and> dunder_init (VDict [(''a'', VInt 1)] None) (VDict [(''b'', VInt 3)] None) []
       = Inl (AttributeError ''get_batch_size'')"
  by (simp add: init_eval fields_def)

section \<open>Facts about the merge loop\<close>

lemma format_warning_template:
  "map_of r ''warning_string'' = Some (VStr warning_string) \<Longrightarrow>
   format_warning r key = Inr (collision_warning key)"
  by (simp add: format_warning_def dunder_getattr_def getitem_def warning_string_def
      collision_warning_def)

lemma merge_items_ok:
  "map_of r ''warning_string'' = Some (VStr warning_string) \<Longrightarrow>
   ''warning_string'' \<notin> set (map fst kvs) \<Longrightarrow>
   \<exists>w'. merge_items idx (r, w) kvs = Inr (store_all r kvs, w')"
proof (induction kvs arbitrary: r w)
  case Nil
  then show ?case by simp
next
  case (Cons p kvs)
  obtain k v where p: "p = (k, v)" by (cases p)
  with Cons.prems have k: "k \<noteq> ''warning_string''" and rest: "''warning_string'' \<notin> set (map fst kvs)"
    by auto
  from k Cons.prems(1) have t: "map_of (setitem r k v) ''warning_string'' = Some (VStr warning_string)"
    by (simp add: map_of_setitem)
  from Cons.IH [OF t rest] p Cons.prems(1) show ?case
    by (simp add: format_warning_template)
qed

lemma merge_items_warn:
  "2 \<le> idx \<Longrightarrow> map_of r ''warning_string'' = Some (VStr warning_string) \<Longrightarrow>
   ''warning_string'' \<notin> set (map fst kvs) \<Longrightarrow> distinct (map fst kvs) \<Longrightarrow>
   merge_items idx (r, w) kvs =
     Inr (store_all r kvs, w @ map collision_warning (filter (contains r) (map fst kvs)))"
proof (induction kvs arbitrary: r w)
  case Nil
  then show ?case by simp
next
  case (Cons p kvs)
  obtain k v where p: "p = (k, v)" by (cases p)
  with Cons.prems have k: "k \<noteq> ''warning_string''" and rest: "''warning_string'' \<notin> set (map fst kvs)"
    and nk: "k \<notin> set (map fst kvs)" and d: "distinct (map fst kvs)"
    by auto
  from k Cons.prems(2) have t: "map_of (setitem r k v) ''warning_string'' = Some (VStr warning_string)"
    by (simp add: map_of_setitem)
  have f: "filter (contains (setitem r k v)) (map fst kvs) = filter (contains r) (map fst kvs)"
    using nk by (intro filter_cong) (auto simp: contains_setitem)
  have ih: "merge_items idx (setitem r k v, w') kvs =
     Inr (store_all (setitem r k v) kvs, w' @ map collision_warning (filter (contains r) (map fst kvs)))"
    for w'
    using Cons.IH [OF Cons.prems(1) t rest d, of w'] f by simp
  show ?case
    using p Cons.prems(1,2) ih by (simp add: format_warning_template)
qed

lemma merge_args_append:
  "merge_args idx s (xs @ ys) =
     (case merge_args idx s xs of
        Inl e \<Rightarrow> Inl e
      | Inr s' \<Rightarrow> merge_args (idx + length xs) s' ys)"
  by (induction xs arbitrary: idx s) (simp_all split: sum.splits)

lemma merge_args_ok:
  "map_of r ''warning_string'' = Some (VStr warning_string) \<Longrightarrow>
   \<forall>a \<in> set args. ''warning_string'' \<notin> set (map fst (items_of a)) \<Longrightarrow>
   \<exists>r' w'. merge_args idx (r, w) args = Inr (r', w')
            \<and> map_of r' ''warning_string'' = Some (VStr warning_string)"
proof (induction args arbitrary: idx r w)
  case Nil
  then show ?case by simp
next
  case (Cons a args)
  from Cons.prems have na: "''warning_string'' \<notin> set (map fst (items_of a))"
    and rest: "\<forall>a \<in> set args. ''warning_string'' \<notin> set (map fst (items_of a))" by auto
  from merge_items_ok [OF Cons.prems(1) na] obtain w1
    where m: "merge_items idx (r, w) (items_of a) = Inr (store_all r (items_of a), w1)" by blast
  have t: "map_of (store_all r (items_of a)) ''warning_string'' = Some (VStr warning_string)"
    using na Cons.prems(1) by (simp add: store_all_map_of_other)
  from Cons.IH [OF t rest, of "Suc idx" w1] m show ?case by simp
qed

lemma check_mappings_None:
  "\<forall>a \<in> set args. is_mapping a \<Longrightarrow> check_mappings idx args = None"
  by (induction args arbitrary: idx) simp_all

lemma dunder_init_dicts:
  "\<forall>a \<in> set args. is_mapping a \<Longrightarrow>
   dunder_init (VDict bi (Some bs)) (VDict mi gm) args =
     merge_args 2
       (store_all (store_all [(''batch_size'', bs), (''warning_string'', VStr warning_string)] bi) mi,
        [])
       args"
  by (simp add: dunder_init_def check_and_load_tuple_def dunder_setattr_def Let_def
      check_mappings_None merge_items_silent numeral_2_eq_2)

section \<open>The merge policy on ordinary keys\<close>

text \<open>
  A batch and a \<^verbatim>\<open>model_output\<close> merge without any warning, and a key of \<^verbatim>\<open>model_output\<close>
  holds the value of \<^verbatim>\<open>model_output\<close>, whether the batch had the key or not.
\<close>

lemma merge_batch_model_output_silent:
  assumes "distinct (map fst mi)"
  shows "\<exists>r0. dunder_init (VDict bi (Some bs)) (VDict mi gm) [] = Inr (r0, [])
           \<and> (\<forall>k v. (k, v) \<in> set mi \<longrightarrow> getitem r0 k = Inr v)"
proof -
  let ?s0 = "store_all (store_all [(''batch_size'', bs), (''warning_string'', VStr warning_string)] bi) mi"
  have i0: "dunder_init (VDict bi (Some bs)) (VDict mi gm) [] = Inr (?s0, [])"
    by (simp add: dunder_init_dicts)
  have v0: "\<forall>k v. (k, v) \<in> set mi \<longrightarrow> getitem ?s0 k = Inr v"
    using store_all_map_of [OF assms] by (simp add: getitem_def)
  show ?thesis by (rule exI [of _ ?s0]) (intro conjI i0 v0)
qed

text \<open>
  For a further mapping merged after the Report \<open>rp\<close> of the earlier sources is built,
  each of its keys that \<open>rp\<close> already contains adds one warning that names the key, in the
  order of the keys, and every key of it holds its value. The warning is formatted from
  the item \<^verbatim>\<open>warning_string\<close>; here no source has a key of that name.
\<close>

lemma merge_extra_argument_warns:
  assumes "\<forall>a \<in> set pre. is_mapping a \<and> ''warning_string'' \<notin> set (map fst (items_of a))"
    and "''warning_string'' \<notin> set (map fst bi)" and "''warning_string'' \<notin> set (map fst mi)"
    and "''warning_string'' \<notin> set (map fst ei)"
    and "distinct (map fst ei)"
  shows "\<exists>rp wp r.
           dunder_init (VDict bi (Some bs)) (VDict mi gm) pre = Inr (rp, wp)
         \<and> dunder_init (VDict bi (Some bs)) (VDict mi gm) (pre @ [VDict ei ge])
             = Inr (r, wp @ map collision_warning (filter (contains rp) (map fst ei)))
         \<and> (\<forall>k v. (k, v) \<in> set ei \<longrightarrow> getitem r k = Inr v)"
proof -
  let ?s0 = "store_all (store_all [(''batch_size'', bs), (''warning_string'', VStr warning_string)] bi) mi"
  have t0: "map_of ?s0 ''warning_string'' = Some (VStr warning_string)"
    using assms(2,3) by (simp add: store_all_map_of_other)
  from assms(1) have pm: "\<forall>a \<in> set pre. is_mapping a"
    and pw: "\<forall>a \<in> set pre. ''warning_string'' \<notin> set (map fst (items_of a))" by auto
  from merge_args_ok [OF t0 pw, of 2 "[]"] obtain rp wp
    where mp: "merge_args 2 (?s0, []) pre = Inr (rp, wp)"
      and tp: "map_of rp ''warning_string'' = Some (VStr warning_string)" by blast
  have ip: "dunder_init (VDict bi (Some bs)) (VDict mi gm) pre = Inr (rp, wp)"
    using pm mp by (simp add: dunder_init_dicts)
  let ?r = "store_all rp ei"
  have "merge_args 2 (?s0, []) (pre @ [VDict ei ge]) =
        merge_args (2 + length pre) (rp, wp) [VDict ei ge]"
    using mp by (simp add: merge_args_append)
  also have "\<dots> = Inr (?r, wp @ map collision_warning (filter (contains rp) (map fst ei)))"
    using merge_items_warn [OF _ tp assms(4,5), of "2 + length pre" wp] by simp
  finally have ie: "dunder_init (VDict bi (Some bs)) (VDict mi gm) (pre @ [VDict ei ge])
             = Inr (?r, wp @ map collision_warning (filter (contains rp) (map fst ei)))"
    using pm by (simp add: dunder_init_dicts)
  have ve: "\<forall>k v. (k, v) \<in> set ei \<longrightarrow> getitem ?r k = Inr v"
    using store_all_map_of [OF assms(5)] by (simp add: getitem_def)
  show ?thesis
    by (rule exI [of _ rp], rule exI [of _ wp], rule exI [of _ ?r]) (intro conjI ip ie ve)
qed

text \<open>
  An instance: batch and \<^verbatim>\<open>model_output\<close> share the key \<^verbatim>\<open>a\<close> silently; the second extra
  argument brings \<^verbatim>\<open>a\<close> again, which warns, and a new key, which does not.
\<close>

lemma merge_collision_example:
  "dunder_init (VDict [(''a'', VInt 1)] (Some (VInt 2))) (VDict [(''a'', VInt 3)] None) []
       = Inr ([(''batch_size'', VInt 2), (''warning_string'', VStr warning_string), (''a'', VInt 3)], [])
   \<and> dunder_init (VDict [(''a'', VInt 1)] (Some (VInt 2))) (VDict [(''a'', VInt 3)] None)
        [VDict [(''c'', VInt 4)] None, VDict [(''a'', VInt 7), (''d'', VInt 8)] None]
       = Inr ([(''batch_size'', VInt 2), (''warning_string'', VStr warning_string), (''a'', VInt 7),
               (''c'', VInt 4), (''d'', VInt 8)],
              [collision_warning ''a''])"
  by (simp add: init_eval format_warning_template)

section \<open>Claim about merge collisions\<close>

text \<open>
  Claim C2. The claim says that an extra positional argument with a key the Report
  already has makes the constructor emit a warning that names the key, and that the
  value of the extra argument wins. The code fails to do so on the following input. The
  batch is a mapping with the items \<^verbatim>\<open>warning_string = 5\<close> and \<^verbatim>\<open>a = 1\<close> and the batch size
  2, \<^verbatim>\<open>model_output\<close> is omitted, and the one extra argument is \<^verbatim>\<open>{"a": 7}\<close>. The constructor
  stores its warning template as the item \<^verbatim>\<open>warning_string\<close>, the batch overwrites that
  item with 5, and at the collision on \<^verbatim>\<open>a\<close> the code reads the item back and calls
  \<^verbatim>\<open>format\<close> on it: the constructor raises AttributeError, no warning is emitted and no
  Report is built.
\<close>

theorem merge_collision_template_overwritten:
  "dunder_init (VDict [(''warning_string'', VInt 5), (''a'', VInt 1)] (Some (VInt 2))) VNone
     [VDict [(''a'', VInt 7)] None]
   = Inl (AttributeError ''format'')"
  by (simp add: init_eval format_warning_def dunder_getattr_def getitem_def)

section \<open>Facts about copy\<close>

lemma copy_loop_eq:
  "distinct (map fst (pre @ suf)) \<Longrightarrow>
   copy_loop dc (pre @ suf) (map (\<lambda>(k, v). (k, dc v)) pre) (map fst suf) =
   map (\<lambda>(k, v). (k, dc v)) (pre @ suf)"
proof (induction suf arbitrary: pre)
  case Nil
  then show ?case by simp
next
  case (Cons p suf)
  obtain k v where p: "p = (k, v)" by (cases p)
  from Cons.prems p have m: "map_of (pre @ (k, v) # suf) k = Some v"
    by (intro map_of_is_SomeI) auto
  from Cons.prems p have "k \<notin> set (map fst (map (\<lambda>(k, v). (k, dc v)) pre))"
    by (auto simp: case_prod_unfold)
  then have s: "setitem (map (\<lambda>(k, v). (k, dc v)) pre) k (dc v) =
             map (\<lambda>(k, v). (k, dc v)) (pre @ [(k, v)])"
    by (simp add: setitem_absent)
  have "copy_loop dc ((pre @ [(k, v)]) @ suf) (map (\<lambda>(k, v). (k, dc v)) (pre @ [(k, v)])) (map fst suf) =
        map (\<lambda>(k, v). (k, dc v)) ((pre @ [(k, v)]) @ suf)"
    using Cons.prems p by (intro Cons.IH) simp
  with m s p show ?case by simp
qed

lemma copy_eq:
  "distinct (fields r) \<Longrightarrow> copy dc r = map (\<lambda>(k, v). (k, dc v)) r"
  using copy_loop_eq [of "[]" r dc] by (simp add: copy_def fields_def)

section \<open>Claim about the reserved fields\<close>

text \<open>
  Claim C10. A Report built by the merge path has \<^verbatim>\<open>batch_size\<close> and \<^verbatim>\<open>warning_string\<close> as
  its first two fields, before every merged key. \<^verbatim>\<open>copy()\<close> returns the items in the same
  order, each value replaced by what \<^verbatim>\<open>deepcopy\<close> returns for it, the two reserved ones
  included; and \<^verbatim>\<open>apply_fn\<close> without restriction stores, for both, what \<^verbatim>\<open>fn\<close> returns
  (followed by the one level of recursion of claim C6).
\<close>

theorem reserved_fields_first:
  assumes "is_mapping batch" and "dunder_init batch model_output args = Inr (r, w)"
  shows "take 2 (fields r) = [''batch_size'', ''warning_string'']
         \<and> distinct (fields r)
         \<and> copy deepcopy r = map (\<lambda>(k, v). (k, deepcopy v)) r
         \<and> fields (copy deepcopy r) = fields r
         \<and> (\<exists>v. getitem r ''batch_size'' = Inr v
               \<and> getitem (copy deepcopy r) ''batch_size'' = Inr (deepcopy v)
               \<and> getitem (apply_fn fn VNone r) ''batch_size'' = Inr (apply_nested fn (fn v)))
         \<and> (\<exists>v. getitem r ''warning_string'' = Inr v
               \<and> getitem (copy deepcopy r) ''warning_string'' = Inr (deepcopy v)
               \<and> getitem (apply_fn fn VNone r) ''warning_string'' = Inr (apply_nested fn (fn v)))"
proof -
  from dunder_init_mapping_fields [OF assms] obtain ks
    where f: "fields r = ''batch_size'' # ''warning_string'' # ks" and d: "distinct (fields r)"
    by blast
  from d have dm: "distinct (map fst r)" by (simp add: fields_def)
  have c: "copy deepcopy r = map (\<lambda>(k, v). (k, deepcopy v)) r" using d by (rule copy_eq)
  have cf: "fields (copy deepcopy r) = fields r"
    unfolding c by (simp add: fields_def case_prod_unfold comp_def)
  have ap: "\<exists>v. getitem r key = Inr v
             \<and> getitem (copy deepcopy r) key = Inr (deepcopy v)
             \<and> getitem (apply_fn fn VNone r) key = Inr (apply_nested fn (fn v))"
    if "key \<in> set (fields r)" for key
  proof -
    from that obtain v where m: "(key, v) \<in> set r" by (auto simp: fields_def)
    with d have "map_of r key = Some v" by (simp add: fields_def)
    then have "getitem r key = Inr v" by (simp add: getitem_def)
    moreover from getitem_apply_fn [OF d m, of fn VNone]
    have "getitem (apply_fn fn VNone r) key = Inr (apply_nested fn (fn v))"
      by (simp add: skipped_def)
    moreover have "getitem (copy deepcopy r) key = Inr (deepcopy v)"
      unfolding c using dm m by (rule getitem_map_entry)
    ultimately show ?thesis by blast
  qed
  have t2: "take 2 (fields r) = [''batch_size'', ''warning_string'']"
    using f by (simp add: numeral_2_eq_2)
  have "''batch_size'' \<in> set (fields r)" "''warning_string'' \<in> set (fields r)"
    using f by simp_all
  then have a1: "\<exists>v. getitem r ''batch_size'' = Inr v
               \<and> getitem (copy deepcopy r) ''batch_size'' = Inr (deepcopy v)
               \<and> getitem (apply_fn fn VNone r) ''batch_size'' = Inr (apply_nested fn (fn v))"
    and a2: "\<exists>v. getitem r ''warning_string'' = Inr v
               \<and> getitem (copy deepcopy r) ''warning_string'' = Inr (deepcopy v)
               \<and> getitem (apply_fn fn VNone r) ''warning_string'' = Inr (apply_nested fn (fn v))"
    using ap by blast+
  show ?thesis by (intro conjI t2 d c cf a1 a2)
qed

text \<open>
  An instance; to tell the copy from its original, the function put in the place of
  \<^verbatim>\<open>deepcopy\<close> here adds one to an integer.
\<close>

theorem reserved_fields_first_witness:
  "is_mapping (VDict [(''a'', VInt 1)] (Some (VInt 2)))
   \<and> dunder_init (VDict [(''a'', VInt 1)] (Some (VInt 2))) VNone []
       = Inr ([(''batch_size'', VInt 2), (''warning_string'', VStr warning_string), (''a'', VInt 1)], [])
   \<and> fields [(''batch_size'', VInt 2), (''warning_string'', VStr warning_string), (''a'', VInt 1)]
       = [''batch_size'', ''warning_string'', ''a'']
   \<and> copy add_one [(''batch_size'', VInt 2), (''warning_string'', VStr warning_string), (''a'', VInt 1)]
       = [(''batch_size'', VInt 3), (''warning_string'', VStr warning_string), (''a'', VInt 2)]
   \<and> getitem (apply_fn add_one VNone
        [(''batch_size'', VInt 2), (''warning_string'', VStr warning_string), (''a'', VInt 1)])
        ''batch_size'' = Inr (VInt 3)"
proof -
  have e: "dunder_init (VDict [(''a'', VInt 1)] (Some (VInt 2))) VNone []
       = Inr ([(''batch_size'', VInt 2), (''warning_string'', VStr warning_string), (''a'', VInt 1)], [])"
    by (simp add: init_eval)
  from reserved_fields_first [OF _ e, of add_one add_one]
  show ?thesis using e by (auto simp: getitem_def add_one_def fields_def)
qed

section \<open>Facts about the accumulation loops\<close>













section \<open>Claims about accumulation\<close>




text \<open>
  Claim C9, as the code has it: \<^verbatim>\<open>_accumulate_loss\<close> adds only to a loss of \<^verbatim>\<open>self\<close> that is
  a tensor. With \<^verbatim>\<open>self.losses\<close> = \<^verbatim>\<open>{"ce": torch.tensor(1.0)}\<close> and the other losses
  \<^verbatim>\<open>{"ce": 0.5, "extra": ...}\<close>, where 0.5 is a plain number or a float tensor on the same
  device, \<^verbatim>\<open>self.losses\<close> becomes \<^verbatim>\<open>{"ce": torch.tensor(1.5)}\<close>, the key \<^verbatim>\<open>extra\<close> is not added,
  and one warning names it. Of the rounding only that it leaves 0.5 and 1.5 as they are,
  which float32 does, is used.
\<close>

theorem loss_accumulation_example:
  assumes "map_of r ''losses'' = Some (VDict [(''ce'', VTensor Float32 dev [] [1])] g)"
    and "map_of other ''losses'' = Some (VDict [(''ce'', ce), (''extra'', extra)] g')"
    and "ce = VTensor Float32 dev [] [1 / 2] \<or> ce = VFloat (1 / 2)"
    and "rnd (1 / 2) = 1 / 2" and "rnd (3 / 2) = 3 / 2"
  shows "accumulate_loss rnd (r, w) other =
           Inr (setitem r ''losses'' (VDict [(''ce'', VTensor Float32 dev [] [3 / 2])] g),
                w @ [''extra not found in report. Loss calculation might not work as expected.''])
         \<and> getitem (setitem r ''losses'' (VDict [(''ce'', VTensor Float32 dev [] [3 / 2])] g)) ''losses''
             = Inr (VDict [(''ce'', VTensor Float32 dev [] [3 / 2])] g)
         \<and> accumulate_tensor_fields_and_loss rnd (r, w) other [] =
             Inr (setitem r ''losses'' (VDict [(''ce'', VTensor Float32 dev [] [3 / 2])] g),
                  w @ [''extra not found in report. Loss calculation might not work as expected.''])"
proof -
  have go: "dunder_getattr other ''losses'' = Inr (VDict [(''ce'', ce), (''extra'', extra)] g')"
    using assms(2) by (simp add: dunder_getattr_def getitem_def)
  have gs: "dunder_getattr r ''losses'' = Inr (VDict [(''ce'', VTensor Float32 dev [] [1])] g)"
    using assms(1) by (simp add: dunder_getattr_def getitem_def)
  have ti: "tensor_iadd rnd (VTensor Float32 dev [] [1]) ce = Inr (VTensor Float32 dev [] [3 / 2])"
  proof -
    have s: "(1::rat) + 1 / 2 = 3 / 2" by simp
    have t1: "tensor_iadd rnd (VTensor Float32 dev [] [1]) (VTensor Float32 dev [] [1 / 2]) =
              Inr (VTensor Float32 dev [] [rnd (1 + 1 / 2)])"
      by (simp add: add_entry_def del: one_add_one)
    have t2: "tensor_iadd rnd (VTensor Float32 dev [] [1]) (VFloat (1 / 2)) =
              Inr (VTensor Float32 dev [] [rnd (1 + rnd (1 / 2))])"
      by simp
    from assms(3) show ?thesis
    proof
      assume "ce = VTensor Float32 dev [] [1 / 2]"
      with t1 show ?thesis unfolding s assms(5) by simp
    next
      assume "ce = VFloat (1 / 2)"
      with t2 show ?thesis unfolding assms(4) s assms(5) by simp
    qed
  qed
  let ?r1 = "setitem r ''losses'' (VDict [(''ce'', VTensor Float32 dev [] [3 / 2])] g)"
  have g1: "dunder_getattr ?r1 ''losses'' = Inr (VDict [(''ce'', VTensor Float32 dev [] [3 / 2])] g)"
    by (simp add: dunder_getattr_def getitem_def map_of_setitem)
  have a: "accumulate_loss rnd (r, w) other =
           Inr (?r1, w @ [''extra not found in report. Loss calculation might not work as expected.''])"
    using go gs ti g1 by (simp add: accumulate_loss_def)
  moreover have "getitem ?r1 ''losses'' = Inr (VDict [(''ce'', VTensor Float32 dev [] [3 / 2])] g)"
    by (simp add: getitem_def map_of_setitem)
  ultimately show ?thesis by (simp add: accumulate_tensor_fields_and_loss_def)
qed

text \<open>
  Two instances, with a further field in \<^verbatim>\<open>self\<close>: the value added is a tensor in the
  first and a plain number in the second. The rounding is taken to leave every entry as
  it is.
\<close>

theorem loss_accumulation_example_witness:
  "accumulate_loss (\<lambda>q. q)
     ([(''scores'', VInt 0), (''losses'', VDict [(''ce'', VTensor Float32 ''cpu'' [] [1])] None)], [])
     [(''losses'', VDict [(''ce'', VTensor Float32 ''cpu'' [] [1 / 2]),
                          (''extra'', VTensor Float32 ''cpu'' [] [9])] None)]
   = Inr ([(''scores'', VInt 0), (''losses'', VDict [(''ce'', VTensor Float32 ''cpu'' [] [3 / 2])] None)],
          [''extra not found in report. Loss calculation might not work as expected.''])
   \<and> accumulate_loss (\<lambda>q. q)
     ([(''scores'', VInt 0), (''losses'', VDict [(''ce'', VTensor Float32 ''cpu'' [] [1])] None)], [])
     [(''losses'', VDict [(''ce'', VFloat (1 / 2)), (''extra'', VFloat 9)] None)]
   = Inr ([(''scores'', VInt 0), (''losses'', VDict [(''ce'', VTensor Float32 ''cpu'' [] [3 / 2])] None)],
          [''extra not found in report. Loss calculation might not work as expected.''])"
  using loss_accumulation_example [of
      "[(''scores'', VInt 0), (''losses'', VDict [(''ce'', VTensor Float32 ''cpu'' [] [1])] None)]"
      "''cpu''" None
      "[(''losses'', VDict [(''ce'', VTensor Float32 ''cpu'' [] [1 / 2]),
                            (''extra'', VTensor Float32 ''cpu'' [] [9])] None)]"
      "VTensor Float32 ''cpu'' [] [1 / 2]" "VTensor Float32 ''cpu'' [] [9]" None "\<lambda>q. q" "[]"]
    loss_accumulation_example [of
      "[(''scores'', VInt 0), (''losses'', VDict [(''ce'', VTensor Float32 ''cpu'' [] [1])] None)]"
      "''cpu''" None
      "[(''losses'', VDict [(''ce'', VFloat (1 / 2)), (''extra'', VFloat 9)] None)]"
      "VFloat (1 / 2)" "VFloat 9" None "\<lambda>q. q" "[]"]
  by simp

text \<open>
  Claim C9 as worded fails: with the plain numbers of the claim, \<^verbatim>\<open>self.losses["ce"]\<close> is
  no tensor and stays 1.0 (the warning for \<^verbatim>\<open>extra\<close> is issued). With an integer tensor
  \<^verbatim>\<open>torch.tensor(1)\<close> as the loss of \<^verbatim>\<open>self\<close>, adding 0.5 raises RuntimeError.
\<close>

theorem loss_accumulation_counterexample:
  "(\<forall>rnd. accumulate_loss rnd ([(''losses'', VDict [(''ce'', VFloat 1)] None)], [])
       [(''losses'', VDict [(''ce'', VFloat (1 / 2)), (''extra'', VFloat 9)] None)]
     = Inr ([(''losses'', VDict [(''ce'', VFloat 1)] None)],
            [''extra not found in report. Loss calculation might not work as expected.'']))
   \<and> (\<forall>rnd. accumulate_loss rnd ([(''losses'', VDict [(''ce'', VTensor Int64 ''cpu'' [] [1])] None)], [])
       [(''losses'', VDict [(''ce'', VFloat (1 / 2)), (''extra'', VFloat 9)] None)]
     = Inl RuntimeError)"
  by (simp add: accumulate_loss_def dunder_getattr_def getitem_def)

end
